theory Spec2Isabelle
  imports Main "HOL-Library.AList" "HOL-Library.Sublist"
begin

section \<open>swimple: a caching request handler for service workers\<close>

text \<open>
  The development embeds \<^verbatim>\<open>src/helpers.js\<close>, \<^verbatim>\<open>src/headers.js\<close>, the request handler
  built by \<^verbatim>\<open>createHandleRequest\<close> and the in-memory cache of \<^verbatim>\<open>tests/MockCache.js\<close>.

  \<^item> Timestamps and TTLs are \<open>int\<close>: milliseconds since the epoch and whole seconds, all
    far below $2^{53}$, where JavaScript numbers are exact. A fractional TTL in the
    configuration is outside the model.
  \<^item> Strings are \<open>string\<close> with ASCII case mapping; console logging is left out.
  \<^item> The browser's \<^verbatim>\<open>URL\<close> class and the worker's origin are parameters of the model.
  \<^item> One call of the handler is one turn: it runs against the cache without interleaving,
    and the work it starts without waiting for it (the periodic sweep, the background
    revalidation) is returned as a list of tasks that run afterwards. A cache deletion the
    code does not await takes effect within the turn.
\<close>

subsection \<open>Strings\<close>

definition toLowerChar :: "char \<Rightarrow> char" where
  "toLowerChar c =
     (let n = (of_char c :: nat) in if 65 \<le> n \<and> n \<le> 90 then char_of (n + 32) else c)"

definition toLowerCase :: "string \<Rightarrow> string" where
  "toLowerCase s = map toLowerChar s"

definition startsWith :: "string \<Rightarrow> string \<Rightarrow> bool" where
  "startsWith s p \<longleftrightarrow> take (length p) s = p"

text \<open>\<^verbatim>\<open>s.lastIndexOf("/")\<close>: the greatest index holding the character, or \<open>-1\<close>.\<close>

definition lastIndexOf :: "string \<Rightarrow> char \<Rightarrow> int" where
  "lastIndexOf s c =
     (case filter (\<lambda>i. s ! i = c) (rev [0..<length s]) of
        [] \<Rightarrow> - 1
      | i # _ \<Rightarrow> int i)"

text \<open>\<^verbatim>\<open>s.substring(0, n)\<close> for \<open>n \<ge> 0\<close>.\<close>

definition substring0 :: "string \<Rightarrow> int \<Rightarrow> string" where
  "substring0 s n = take (nat n) s"

text \<open>
  \<^verbatim>\<open>value.split(sep)\<close> for a non-empty separator: the scan goes left to right, cuts at the
  first occurrence at or after the current position and resumes behind it; the text after
  the last cut is the last piece, so the result is never empty.
\<close>

function split_from :: "string \<Rightarrow> string \<Rightarrow> string \<Rightarrow> string list" where
  "split_from sep acc s =
     (if s = [] then [acc]
      else if sep \<noteq> [] \<and> take (length sep) s = sep
           then acc # split_from sep [] (drop (length sep) s)
      else split_from sep (acc @ [hd s]) (tl s))"
  by pat_completeness auto
termination
  by (relation "measure (\<lambda>(sep, acc, s). length s)") auto

declare split_from.simps [simp del]

definition split :: "string \<Rightarrow> string \<Rightarrow> string list" where
  "split s sep = split_from sep [] s"

text \<open>The inverse direction, \<^verbatim>\<open>pieces.join(sep)\<close>.\<close>

fun join :: "string \<Rightarrow> string list \<Rightarrow> string" where
  "join sep [] = []"
| "join sep [p] = p"
| "join sep (p # q # ps) = p @ sep @ join sep (q # ps)"

text \<open>\<^verbatim>\<open>s.includes(t)\<close>: \<open>t\<close> occurs in \<open>s\<close> at some position.\<close>

definition includes_str :: "string \<Rightarrow> string \<Rightarrow> bool" where
  "includes_str s t \<longleftrightarrow> list_ex (\<lambda>i. take (length t) (drop i s) = t) [0..<Suc (length s)]"

subsection \<open>Numbers in headers\<close>

definition isWhiteSpace :: "char \<Rightarrow> bool" where
  "isWhiteSpace c \<longleftrightarrow> (of_char c :: nat) \<in> {9, 10, 11, 12, 13, 32}"

definition isDigit :: "char \<Rightarrow> bool" where
  "isDigit c \<longleftrightarrow> 48 \<le> (of_char c :: nat) \<and> (of_char c :: nat) \<le> 57"

definition digitVal :: "char \<Rightarrow> nat" where
  "digitVal c = of_char c - 48"

definition digitsVal :: "string \<Rightarrow> nat" where
  "digitsVal ds = foldl (\<lambda>a c. a * 10 + digitVal c) 0 ds"

text \<open>
  \<^verbatim>\<open>parseInt(s, 10)\<close>: leading white space is skipped, one sign is read, then the longest
  run of decimal digits; no digit at all is \<^verbatim>\<open>NaN\<close>, here \<open>None\<close>. Whatever follows the
  digits is ignored.
\<close>

definition parseInt :: "string \<Rightarrow> int option" where
  "parseInt s =
     (let t = dropWhile isWhiteSpace s;
          neg = (t \<noteq> [] \<and> hd t = CHR ''-'');
          u = (if t \<noteq> [] \<and> (hd t = CHR ''-'' \<or> hd t = CHR ''+'') then tl t else t);
          ds = takeWhile isDigit u
      in if ds = [] then None
         else Some (if neg then - int (digitsVal ds) else int (digitsVal ds)))"

definition digitChar :: "nat \<Rightarrow> char" where
  "digitChar d = char_of (48 + d)"

function natToString :: "nat \<Rightarrow> string" where
  "natToString n =
     (if n < 10 then [digitChar n] else natToString (n div 10) @ [digitChar (n mod 10)])"
  by pat_completeness auto
termination
  by (relation "measure (\<lambda>n. n)") auto

declare natToString.simps [simp del]

text \<open>\<^verbatim>\<open>Date.now().toString()\<close>: the decimal numeral of a whole number.\<close>

definition toString :: "int \<Rightarrow> string" where
  "toString n = (if n < 0 then CHR ''-'' # natToString (nat (- n)) else natToString (nat n))"

subsection \<open>Header names (\<^verbatim>\<open>src/headers.js\<close>)\<close>

definition CACHE_STRATEGY_HEADER :: string where
  "CACHE_STRATEGY_HEADER = ''X-SW-Cache-Strategy''"

definition CACHE_TTL_HEADER :: string where
  "CACHE_TTL_HEADER = ''X-SW-Cache-TTL-Seconds''"

definition CACHE_STALE_TTL_HEADER :: string where
  "CACHE_STALE_TTL_HEADER = ''X-SW-Cache-Stale-TTL-Seconds''"

definition CACHE_INVALIDATE_HEADER :: string where
  "CACHE_INVALIDATE_HEADER = ''X-SW-Cache-Invalidate''"

definition CACHE_CLEAR_HEADER :: string where
  "CACHE_CLEAR_HEADER = ''X-SW-Cache-Clear''"

definition CACHE_TIMESTAMP_HEADER :: string where
  "CACHE_TIMESTAMP_HEADER = ''x-sw-cache-timestamp''"

subsection \<open>Requests, responses and their headers\<close>

text \<open>
  A \<^verbatim>\<open>Headers\<close> object is used by the code only as an iterable of name/value pairs, so it
  is the list of these pairs in iteration order.
\<close>

type_synonym headers = "(string \<times> string) list"

record request =
  req_url :: string
  req_method :: string
  req_headers :: headers

record response =
  status :: nat
  statusText :: string
  headers :: headers
  body :: string

text \<open>\<^verbatim>\<open>response.ok\<close>: the status is in the range 200 to 299.\<close>

definition ok :: "response \<Rightarrow> bool" where
  "ok r \<longleftrightarrow> 200 \<le> status r \<and> status r \<le> 299"

fun getHeader :: "headers \<Rightarrow> string \<Rightarrow> string option" where
  "getHeader [] name = None"
| "getHeader ((key, v) # hs) name =
     (if toLowerCase key = toLowerCase name then Some v else getHeader hs name)"

fun getAllHeaders :: "headers \<Rightarrow> string \<Rightarrow> string list" where
  "getAllHeaders [] name = []"
| "getAllHeaders ((key, v) # hs) name =
     (if toLowerCase key = toLowerCase name
      then split v '', '' @ getAllHeaders hs name
      else getAllHeaders hs name)"

text \<open>
  \<^verbatim>\<open>headers.set(name, value)\<close> on a copy: every entry of that name (compared without
  case) is replaced by the single new one.
\<close>

definition headers_set :: "headers \<Rightarrow> string \<Rightarrow> string \<Rightarrow> headers" where
  "headers_set hs name v =
     filter (\<lambda>(key, _). toLowerCase key \<noteq> toLowerCase name) hs @ [(toLowerCase name, v)]"

subsection \<open>Freshness (\<^verbatim>\<open>src/helpers.js\<close>)\<close>

text \<open>
  \<^verbatim>\<open>Date.now()\<close> is the explicit first argument \<open>now\<close> of every function that reads the
  clock. An empty header value is falsy in JavaScript, hence the first test.
\<close>

definition getCacheTimestamp :: "response \<Rightarrow> int option" where
  "getCacheTimestamp r =
     (case getHeader (headers r) CACHE_TIMESTAMP_HEADER of
        None \<Rightarrow> None
      | Some timestampHeader \<Rightarrow>
          if timestampHeader = [] then None else parseInt timestampHeader)"

definition isFresh :: "int \<Rightarrow> response \<Rightarrow> int \<Rightarrow> bool" where
  "isFresh now r ttl =
     (case getCacheTimestamp r of
        None \<Rightarrow> False
      | Some timestamp \<Rightarrow> now - timestamp < ttl * 1000)"

definition isStale :: "int \<Rightarrow> response \<Rightarrow> int \<Rightarrow> int option \<Rightarrow> bool" where
  "isStale now r ttl staleTTL =
     (case staleTTL of
        None \<Rightarrow> False
      | Some s \<Rightarrow>
          (case getCacheTimestamp r of
             None \<Rightarrow> False
           | Some timestamp \<Rightarrow>
               now - timestamp \<ge> ttl * 1000 \<and> now - timestamp < s * 1000))"

definition isOlderThanMaxAge :: "int \<Rightarrow> response \<Rightarrow> int \<Rightarrow> bool" where
  "isOlderThanMaxAge now r maxAgeSeconds =
     (case getCacheTimestamp r of
        None \<Rightarrow> False
      | Some timestamp \<Rightarrow> now - timestamp \<ge> maxAgeSeconds * 1000)"

definition addTimestamp :: "int \<Rightarrow> response \<Rightarrow> response" where
  "addTimestamp now r =
     \<lparr>status = status r, statusText = statusText r,
      headers = headers_set (headers r) CACHE_TIMESTAMP_HEADER (toString now),
      body = body r\<rparr>"

subsection \<open>The platform: URL parsing and the worker's own origin\<close>

text \<open>
  The \<^verbatim>\<open>URL\<close> class and \<^verbatim>\<open>self.location\<close> belong to the browser, not to this
  repository, so they are parameters: \<open>URL P s\<close> is \<^verbatim>\<open>new URL(s)\<close> (\<open>None\<close> when it
  throws), \<open>URL_base P path base\<close> is \<^verbatim>\<open>new URL(path, base).toString()\<close>, and
  \<open>self_origin P\<close> is \<^verbatim>\<open>self.location.origin\<close> when it is available and not empty.
\<close>

record url =
  origin :: string
  pathname :: string

record platform =
  URL :: "string \<Rightarrow> url option"
  URL_base :: "string \<Rightarrow> string \<Rightarrow> string option"
  self_origin :: "string option"

datatype error = TypeError_InvalidURL | Thrown string

subsection \<open>The cache store (\<^verbatim>\<open>tests/MockCache.js\<close>)\<close>

text \<open>
  One named cache is a JavaScript \<^verbatim>\<open>Map\<close> from URL to response, kept here as an
  association list in insertion order. \<^verbatim>\<open>caches.delete(name)\<close> drops the whole map and the
  next \<^verbatim>\<open>caches.open(name)\<close> starts from an empty one.
\<close>

type_synonym cache = "(string \<times> response) list"

definition cache_match :: "cache \<Rightarrow> string \<Rightarrow> response option" where
  "cache_match c k = map_of c k"

definition cache_put :: "cache \<Rightarrow> string \<Rightarrow> response \<Rightarrow> cache" where
  "cache_put c k r = AList.update k r c"

text \<open>The loop shared by both pathname branches of \<^verbatim>\<open>delete\<close>: entries whose key does not
  parse are skipped, the others go when their pathname is the wanted one.\<close>

definition hasPathname :: "platform \<Rightarrow> string \<Rightarrow> string \<times> response \<Rightarrow> bool" where
  "hasPathname P p e = (case URL P (fst e) of None \<Rightarrow> False | Some u \<Rightarrow> pathname u = p)"

definition delete_by_pathname :: "platform \<Rightarrow> cache \<Rightarrow> string \<Rightarrow> bool \<times> cache" where
  "delete_by_pathname P c p = (list_ex (hasPathname P p) c, filter (\<lambda>e. \<not> hasPathname P p e) c)"

definition cache_delete :: "platform \<Rightarrow> cache \<Rightarrow> string \<Rightarrow> bool \<Rightarrow> bool \<times> cache" where
  "cache_delete P c k ignoreSearch =
     (if \<not> ignoreSearch \<and> map_of c k \<noteq> None then (True, AList.delete k c)
      else case (if ignoreSearch then URL P k else None) of
             Some requestUrlObj \<Rightarrow> delete_by_pathname P c (pathname requestUrlObj)
           | None \<Rightarrow>
               if startsWith k ''/'' then delete_by_pathname P c k else (False, c))"

definition cache_keys :: "cache \<Rightarrow> string list" where
  "cache_keys c = map fst c"

subsection \<open>Directives and scope (\<^verbatim>\<open>src/helpers.js\<close>)\<close>

definition getInferredInvalidationPaths :: "platform \<Rightarrow> string \<Rightarrow> error + string list" where
  "getInferredInvalidationPaths P u =
     (case URL P u of
        None \<Rightarrow> Inl TypeError_InvalidURL
      | Some urlObj \<Rightarrow>
          let path = pathname urlObj;
              lastSlash = lastIndexOf path CHR ''/''
          in if lastSlash > 0 \<and> substring0 path lastSlash \<noteq> []
             then (case URL_base P (substring0 path lastSlash) (origin urlObj) of
                     None \<Rightarrow> Inl TypeError_InvalidURL
                   | Some parentUrl \<Rightarrow> Inr [u, parentUrl])
             else Inr [u])"

definition getStrategy :: "headers \<Rightarrow> string \<Rightarrow> string" where
  "getStrategy hs defaultStrategy =
     (case getHeader hs CACHE_STRATEGY_HEADER of
        None \<Rightarrow> defaultStrategy
      | Some strategyHeader \<Rightarrow>
          if strategyHeader \<noteq> [] \<and>
             strategyHeader \<in> set [''cache-first'', ''network-first'', ''stale-while-revalidate'']
          then strategyHeader else defaultStrategy)"

definition getTTL :: "headers \<Rightarrow> int \<Rightarrow> int option" where
  "getTTL hs defaultTTL =
     (case getHeader hs CACHE_TTL_HEADER of
        None \<Rightarrow> if defaultTTL > 0 then Some defaultTTL else None
      | Some ttlHeader \<Rightarrow>
          (case parseInt ttlHeader of
             None \<Rightarrow> None
           | Some ttl \<Rightarrow> if ttl \<le> 0 then None else Some ttl))"

definition getStaleTTL :: "headers \<Rightarrow> int \<Rightarrow> int option" where
  "getStaleTTL hs defaultStaleTTL =
     (case getHeader hs CACHE_STALE_TTL_HEADER of
        None \<Rightarrow> if defaultStaleTTL > 0 then Some defaultStaleTTL else None
      | Some staleTTLHeader \<Rightarrow>
          (case parseInt staleTTLHeader of
             None \<Rightarrow> None
           | Some staleTTL \<Rightarrow> if staleTTL \<le> 0 then None else Some staleTTL))"

definition matchesScope :: "platform \<Rightarrow> string \<Rightarrow> string list \<Rightarrow> int \<Rightarrow> error + bool" where
  "matchesScope P u scope defaultTTLSeconds =
     (if scope = [] then Inr (defaultTTLSeconds > 0)
      else case URL P u of
             None \<Rightarrow> Inl TypeError_InvalidURL
           | Some urlObj \<Rightarrow> Inr (list_ex (\<lambda>prefix. startsWith (pathname urlObj) prefix) scope))"

text \<open>\<^verbatim>\<open>invalidateCache\<close>: one \<^verbatim>\<open>cache.delete(url, { ignoreSearch: true })\<close> per target,
  in order.\<close>

fun invalidateCache :: "platform \<Rightarrow> cache \<Rightarrow> string list \<Rightarrow> cache" where
  "invalidateCache P c [] = c"
| "invalidateCache P c (u # urls) = invalidateCache P (snd (cache_delete P c u True)) urls"

definition clearCache :: "cache \<Rightarrow> cache" where
  "clearCache c = []"

text \<open>\<^verbatim>\<open>cleanupOldCacheEntries\<close>: the keys are listed once, then every key that still has
  an entry older than the bound is deleted.\<close>

fun cleanup_loop :: "platform \<Rightarrow> int \<Rightarrow> int \<Rightarrow> string list \<Rightarrow> cache \<Rightarrow> cache" where
  "cleanup_loop P now maxAgeSeconds [] c = c"
| "cleanup_loop P now maxAgeSeconds (k # ks) c =
     (case cache_match c k of
        None \<Rightarrow> cleanup_loop P now maxAgeSeconds ks c
      | Some r \<Rightarrow>
          if isOlderThanMaxAge now r maxAgeSeconds
          then cleanup_loop P now maxAgeSeconds ks (snd (cache_delete P c k False))
          else cleanup_loop P now maxAgeSeconds ks c)"

definition cleanupOldCacheEntries :: "platform \<Rightarrow> int \<Rightarrow> cache \<Rightarrow> int \<Rightarrow> cache" where
  "cleanupOldCacheEntries P now c maxAgeSeconds = cleanup_loop P now maxAgeSeconds (cache_keys c) c"

subsection \<open>The request handler (\<^verbatim>\<open>createHandleRequest\<close>)\<close>

text \<open>
  The configuration after the defaults have been filled in. The cache name is fixed (one
  cache), the injected \<^verbatim>\<open>customFetch\<close> is part of the environment below.
\<close>

record config =
  scope :: "string list"
  defaultStrategy :: string
  defaultTTLSeconds :: int
  defaultStaleTTLSeconds :: int
  maxCacheAgeSeconds :: int
  inferInvalidation :: bool

text \<open>
  What one request turn sees of the outside: \<open>net\<close> is the outcome of
  \<^verbatim>\<open>customFetch(request)\<close> (\<open>Inl\<close> when it throws; every path of the handler calls it at
  most once), \<open>now\<close> is \<^verbatim>\<open>Date.now()\<close> before that call and \<open>later\<close> is \<^verbatim>\<open>Date.now()\<close>
  once the call has settled.
\<close>

record env =
  now :: int
  later :: int
  net :: "request \<Rightarrow> error + response"

text \<open>The handler returns \<^verbatim>\<open>null\<close> or a promise, which resolves or rejects.\<close>

datatype result = NotHandled | Resolved response | Rejected error

text \<open>The store and network operations a turn performs, in order.\<close>

datatype event =
    Open
  | Match string
  | Put string response
  | Delete string
  | DeleteIgnoreSearch string
  | DeleteCache
  | Fetch string

text \<open>
  Work the handler starts and does not wait for: the periodic sweep, and the continuation
  of the background fetch of stale-while-revalidate, which carries the request URL and the
  outcome of that fetch.
\<close>

datatype task = Sweep | Revalidate string "error + response"

record turn =
  result :: result
  store :: cache
  counter :: nat
  events :: "event list"
  spawned :: "task list"

record sw =
  cache :: cache
  fetchCounter :: nat

definition settle :: "error + response \<Rightarrow> result" where
  "settle x = (case x of Inl e \<Rightarrow> Rejected e | Inr r \<Rightarrow> Resolved r)"

text \<open>The block ``cache the response if successful'', which ends all three strategies.\<close>

definition storeIfOk :: "int \<Rightarrow> cache \<Rightarrow> string \<Rightarrow> response \<Rightarrow> cache \<times> event list" where
  "storeIfOk t c k networkResponse =
     (if ok networkResponse
      then (cache_put c k (addTimestamp t networkResponse), [Put k (addTimestamp t networkResponse)])
      else (c, []))"

text \<open>The network part of a strategy when no cached entry can serve as a fallback.\<close>

definition fetchAndStore :: "env \<Rightarrow> cache \<Rightarrow> nat \<Rightarrow> event list \<Rightarrow> task list \<Rightarrow> request \<Rightarrow> turn" where
  "fetchAndStore E c n evs ts request =
     (case net E request of
        Inl e \<Rightarrow>
          \<lparr>result = Rejected e, store = c, counter = n,
           events = evs @ [Fetch (req_url request)], spawned = ts\<rparr>
      | Inr networkResponse \<Rightarrow>
          \<lparr>result = Resolved networkResponse,
           store = fst (storeIfOk (later E) c (req_url request) networkResponse), counter = n,
           events = evs @ [Fetch (req_url request)]
                    @ snd (storeIfOk (later E) c (req_url request) networkResponse),
           spawned = ts\<rparr>)"

definition cacheFirst ::
  "platform \<Rightarrow> config \<Rightarrow> env \<Rightarrow> cache \<Rightarrow> nat \<Rightarrow> task list \<Rightarrow> request \<Rightarrow> int \<Rightarrow> int option \<Rightarrow> turn" where
  "cacheFirst P cfg E c n ts request ttl staleTTL =
     (let k = req_url request in
      case cache_match c k of
        None \<Rightarrow> fetchAndStore E c n [Open, Match k] ts request
      | Some cachedResponse \<Rightarrow>
          if isFresh (now E) cachedResponse ttl
          then \<lparr>result = Resolved cachedResponse, store = c, counter = n,
                events = [Open, Match k], spawned = ts\<rparr>
          else
            let expired = isOlderThanMaxAge (now E) cachedResponse (maxCacheAgeSeconds cfg);
                c1 = (if expired then snd (cache_delete P c k False) else c);
                evs = [Open, Match k] @ (if expired then [Delete k] else [])
            in (case net E request of
                  Inl e \<Rightarrow>
                    if isStale (later E) cachedResponse ttl staleTTL
                    then \<lparr>result = Resolved cachedResponse, store = c1, counter = n,
                          events = evs @ [Fetch k], spawned = ts\<rparr>
                    else \<lparr>result = Rejected e, store = c1, counter = n,
                          events = evs @ [Fetch k], spawned = ts\<rparr>
                | Inr networkResponse \<Rightarrow> fetchAndStore E c1 n evs ts request))"

text \<open>In network-first every clock reading comes after the network call.\<close>

definition networkFirst ::
  "platform \<Rightarrow> config \<Rightarrow> env \<Rightarrow> cache \<Rightarrow> nat \<Rightarrow> task list \<Rightarrow> request \<Rightarrow> int \<Rightarrow> int option \<Rightarrow> turn" where
  "networkFirst P cfg E c n ts request ttl staleTTL =
     (let k = req_url request in
      case net E request of
        Inr networkResponse \<Rightarrow> fetchAndStore E c n [Open] ts request
      | Inl e \<Rightarrow>
          (case cache_match c k of
             None \<Rightarrow>
               \<lparr>result = Rejected e, store = c, counter = n,
                events = [Open, Fetch k, Match k], spawned = ts\<rparr>
           | Some cachedResponse \<Rightarrow>
               if isOlderThanMaxAge (later E) cachedResponse (maxCacheAgeSeconds cfg)
               then \<lparr>result = Rejected e, store = snd (cache_delete P c k False), counter = n,
                     events = [Open, Fetch k, Match k, Delete k], spawned = ts\<rparr>
               else if isFresh (later E) cachedResponse ttl
                       \<or> isStale (later E) cachedResponse ttl staleTTL
               then \<lparr>result = Resolved cachedResponse, store = c, counter = n,
                     events = [Open, Fetch k, Match k], spawned = ts\<rparr>
               else \<lparr>result = Rejected e, store = c, counter = n,
                     events = [Open, Fetch k, Match k], spawned = ts\<rparr>))"

text \<open>
  In stale-while-revalidate the stale branch calls \<^verbatim>\<open>customFetch\<close> at once and returns
  the cached response without waiting; what the \<^verbatim>\<open>then\<close>/\<^verbatim>\<open>catch\<close> handlers do with the
  outcome is the spawned task \<open>Revalidate\<close>.
\<close>

definition staleWhileRevalidate ::
  "platform \<Rightarrow> config \<Rightarrow> env \<Rightarrow> cache \<Rightarrow> nat \<Rightarrow> task list \<Rightarrow> request \<Rightarrow> int \<Rightarrow> int option \<Rightarrow> turn" where
  "staleWhileRevalidate P cfg E c n ts request ttl staleTTL =
     (let k = req_url request in
      case cache_match c k of
        None \<Rightarrow> fetchAndStore E c n [Open, Match k] ts request
      | Some cachedResponse \<Rightarrow>
          if isOlderThanMaxAge (now E) cachedResponse (maxCacheAgeSeconds cfg)
          then fetchAndStore E (snd (cache_delete P c k False)) n [Open, Match k, Delete k] ts request
          else
            let fresh = isFresh (now E) cachedResponse ttl;
                stale = isStale (now E) cachedResponse ttl staleTTL
            in if fresh \<or> stale
               then \<lparr>result = Resolved cachedResponse, store = c, counter = n,
                     events = [Open, Match k] @ (if stale then [Fetch k] else []),
                     spawned = ts @ (if stale then [Revalidate k (net E request)] else [])\<rparr>
               else fetchAndStore E c n [Open, Match k] ts request)"

text \<open>The continuation of the background fetch, run at a later instant \<open>t\<close>.\<close>

definition revalidate :: "int \<Rightarrow> cache \<Rightarrow> string \<Rightarrow> error + response \<Rightarrow> cache" where
  "revalidate t c k outcome =
     (case outcome of
        Inl e \<Rightarrow> c
      | Inr networkResponse \<Rightarrow> fst (storeIfOk t c k networkResponse))"

definition runTask :: "platform \<Rightarrow> config \<Rightarrow> int \<Rightarrow> task \<Rightarrow> cache \<Rightarrow> cache" where
  "runTask P cfg t tk c =
     (case tk of
        Sweep \<Rightarrow> cleanupOldCacheEntries P t c (maxCacheAgeSeconds cfg)
      | Revalidate k outcome \<Rightarrow> revalidate t c k outcome)"

text \<open>The counter bookkeeping: the new counter and whether a sweep is started.\<close>

definition periodicCleanup :: "nat \<Rightarrow> nat \<times> bool" where
  "periodicCleanup fetchCounter0 =
     (let n = fetchCounter0 + 1 in
      if n = 1 \<or> n mod 100 = 0 then (if n mod 100 = 0 then 1 else n, True) else (n, False))"

text \<open>
  The list \<^verbatim>\<open>pathsToInvalidate\<close> of the invalidation branch: the directive values, or the
  inferred targets when there is none, each resolved against the request's origin unless it
  parses as a URL by itself. When the request URL does not parse, or a resolution throws,
  the list stays as it was.
\<close>

definition isMutation :: "string \<Rightarrow> bool" where
  "isMutation m \<longleftrightarrow> m \<in> set [''POST'', ''PATCH'', ''PUT'', ''DELETE'']"

definition normalizePaths :: "platform \<Rightarrow> string \<Rightarrow> string list \<Rightarrow> string list" where
  "normalizePaths P u paths =
     (case URL P u of
        None \<Rightarrow> paths
      | Some requestUrlObj \<Rightarrow>
          let resolved = map (\<lambda>path. if URL P path \<noteq> None then Some path
                                     else URL_base P path (origin requestUrlObj)) paths
          in if list_all (\<lambda>x. x \<noteq> None) resolved then map the resolved else paths)"

definition pathsToInvalidate :: "platform \<Rightarrow> config \<Rightarrow> request \<Rightarrow> error + string list" where
  "pathsToInvalidate P cfg request =
     (let invalidateHeaders = getAllHeaders (req_headers request) CACHE_INVALIDATE_HEADER in
      if invalidateHeaders = [] \<and> inferInvalidation cfg \<and> isMutation (req_method request)
      then (case getInferredInvalidationPaths P (req_url request) of
              Inl e \<Rightarrow> Inl e
            | Inr inferred \<Rightarrow> Inr (normalizePaths P (req_url request) inferred))
      else Inr (normalizePaths P (req_url request) invalidateHeaders))"

definition notHandled :: "cache \<Rightarrow> nat \<Rightarrow> task list \<Rightarrow> turn" where
  "notHandled c n ts = \<lparr>result = NotHandled, store = c, counter = n, events = [], spawned = ts\<rparr>"

definition handleRequest :: "platform \<Rightarrow> config \<Rightarrow> env \<Rightarrow> sw \<Rightarrow> request \<Rightarrow> turn" where
  "handleRequest P cfg E st request =
     (let u = req_url request; hs = req_headers request; c = cache st; n0 = fetchCounter st in
      if getHeader hs CACHE_CLEAR_HEADER \<noteq> None
      then \<lparr>result = settle (net E request), store = clearCache c, counter = n0,
            events = [DeleteCache, Fetch u], spawned = []\<rparr>
      else if getAllHeaders hs CACHE_INVALIDATE_HEADER \<noteq> []
              \<or> (inferInvalidation cfg \<and> isMutation (req_method request))
      then (case pathsToInvalidate P cfg request of
              Inl e \<Rightarrow> \<lparr>result = Rejected e, store = c, counter = n0, events = [], spawned = []\<rparr>
            | Inr paths \<Rightarrow>
                \<lparr>result = settle (net E request), store = invalidateCache P c paths, counter = n0,
                 events = (if paths = [] then [] else Open # map DeleteIgnoreSearch paths)
                          @ [Fetch u],
                 spawned = []\<rparr>)
      else if req_method request \<noteq> ''GET'' then notHandled c n0 []
      else
        (case URL P u of
           None \<Rightarrow> notHandled c n0 []
         | Some requestUrl \<Rightarrow>
             if (case self_origin P of
                   None \<Rightarrow> False
                 | Some serviceWorkerOrigin \<Rightarrow> origin requestUrl \<noteq> serviceWorkerOrigin)
             then notHandled c n0 []
             else
               let n = fst (periodicCleanup n0);
                   ts = (if snd (periodicCleanup n0) then [Sweep] else []);
                   hasExplicitTTLHeader = (getHeader hs CACHE_TTL_HEADER \<noteq> None)
               in (case matchesScope P u (scope cfg) (defaultTTLSeconds cfg) of
                     Inl e \<Rightarrow>
                       \<lparr>result = Rejected e, store = c, counter = n, events = [], spawned = ts\<rparr>
                   | Inr inScope \<Rightarrow>
                       if \<not> inScope \<and> \<not> hasExplicitTTLHeader then notHandled c n ts
                       else
                         (case getTTL hs (defaultTTLSeconds cfg) of
                            None \<Rightarrow> notHandled c n ts
                          | Some ttl \<Rightarrow>
                              if ttl = 0 then notHandled c n ts
                              else
                                let staleTTL = getStaleTTL hs (defaultStaleTTLSeconds cfg);
                                    strategy = getStrategy hs (defaultStrategy cfg)
                                in if strategy = ''cache-first''
                                   then cacheFirst P cfg E c n ts request ttl staleTTL
                                   else if strategy = ''network-first''
                                   then networkFirst P cfg E c n ts request ttl staleTTL
                                   else if strategy = ''stale-while-revalidate''
                                   then staleWhileRevalidate P cfg E c n ts request ttl staleTTL
                                   else notHandled c n ts))))"

text \<open>The state after a turn, and after the work it started has run at instant \<open>t\<close>.\<close>

definition after :: "turn \<Rightarrow> sw" where
  "after T = \<lparr>cache = store T, fetchCounter = counter T\<rparr>"

definition settled :: "platform \<Rightarrow> config \<Rightarrow> int \<Rightarrow> turn \<Rightarrow> sw" where
  "settled P cfg t T =
     \<lparr>cache = foldl (\<lambda>c tk. runTask P cfg t tk c) (store T) (spawned T), fetchCounter = counter T\<rparr>"

subsection \<open>A small platform and sample inputs for concrete runs\<close>

text \<open>
  A parser for plain \<^verbatim>\<open>scheme://host/path?query\<close> strings, on which it agrees with the
  browser's \<^verbatim>\<open>URL\<close>; it is used only to run the handler on concrete requests.
\<close>

definition isDelim :: "char \<Rightarrow> bool" where
  "isDelim ch \<longleftrightarrow> ch = CHR ''/'' \<or> ch = CHR ''?'' \<or> ch = CHR ''#''"

definition plainURL :: "string \<Rightarrow> url option" where
  "plainURL s =
     (let pieces = split s ''://'';
          scheme = hd pieces;
          rest = join ''://'' (tl pieces);
          host = takeWhile (\<lambda>ch. \<not> isDelim ch) rest;
          path = takeWhile (\<lambda>ch. ch \<noteq> CHR ''?'' \<and> ch \<noteq> CHR ''#'')
                   (dropWhile (\<lambda>ch. \<not> isDelim ch) rest)
      in if length pieces < 2 \<or> scheme = [] \<or> list_ex isDelim scheme \<or> host = [] then None
         else Some \<lparr>origin = scheme @ ''://'' @ host,
                    pathname = (if path = [] then ''/'' else path)\<rparr>)"

definition plainURL_base :: "string \<Rightarrow> string \<Rightarrow> string option" where
  "plainURL_base path base =
     (if plainURL path \<noteq> None then Some path
      else case plainURL base of
             None \<Rightarrow> None
           | Some b \<Rightarrow> Some (origin b @ (if startsWith path ''/'' then path else CHR ''/'' # path)))"

definition plain :: platform where
  "plain = \<lparr>URL = plainURL, URL_base = plainURL_base, self_origin = Some ''https://example.com''\<rparr>"

definition defaults :: config where
  "defaults = \<lparr>scope = [], defaultStrategy = ''cache-first'', defaultTTLSeconds = 300,
               defaultStaleTTLSeconds = 3600, maxCacheAgeSeconds = 7200, inferInvalidation = True\<rparr>"

text \<open>Sample responses: one with a timestamp header of a given value, one without.\<close>

definition stamped :: "string \<Rightarrow> response" where
  "stamped v = \<lparr>status = 200, statusText = ''OK'',
                headers = [(''X-SW-Cache-Timestamp'', v)], body = ''cached''\<rparr>"

definition bare :: "nat \<Rightarrow> string \<Rightarrow> response" where
  "bare code b = \<lparr>status = code, statusText = [], headers = [], body = b\<rparr>"

text \<open>A request that carries one invalidation directive.\<close>

definition invalidating :: "string \<Rightarrow> string \<Rightarrow> string \<Rightarrow> request" where
  "invalidating m u v =
     \<lparr>req_url = u, req_method = m, req_headers = [(''X-SW-Cache-Invalidate'', v)]\<rparr>"

text \<open>Environments in which the network answers with a given response, or fails.\<close>

definition serving :: "int \<Rightarrow> int \<Rightarrow> response \<Rightarrow> env" where
  "serving t t' r = \<lparr>now = t, later = t', net = (\<lambda>_. Inr r)\<rparr>"

definition failing :: "int \<Rightarrow> int \<Rightarrow> string \<Rightarrow> env" where
  "failing t t' msg = \<lparr>now = t, later = t', net = (\<lambda>_. Inl (Thrown msg))\<rparr>"

definition holding :: "cache \<Rightarrow> nat \<Rightarrow> sw" where
  "holding c n = \<lparr>cache = c, fetchCounter = n\<rparr>"

text \<open>A cache with three query variants of one path and one entry of another path.\<close>

definition users4 :: cache where
  "users4 = [(''https://example.com/api/users'', bare 200 ''all''),
             (''https://example.com/api/users?org_id=123'', bare 200 ''org''),
             (''https://example.com/api/posts'', bare 200 ''posts''),
             (''https://example.com/api/users?status=active'', bare 200 ''active'')]"

text \<open>A request without headers, and a configuration with inference switched off.\<close>

definition plainRequest :: "string \<Rightarrow> string \<Rightarrow> request" where
  "plainRequest m u = \<lparr>req_url = u, req_method = m, req_headers = []\<rparr>"

definition noInference :: config where
  "noInference = defaults\<lparr>inferInvalidation := False\<rparr>"

text \<open>A mutating request with two invalidation directives among other headers.\<close>

definition mixedRequest :: request where
  "mixedRequest =
     \<lparr>req_url = ''https://example.com/api/users/123'', req_method = ''POST'',
      req_headers = [(''Content-Type'', ''application/json''),
                     (''X-SW-Cache-Invalidate'', ''/api/users, /api/teams''),
                     (''Accept'', ''text/html, application/json''),
                     (''x-sw-cache-invalidate'', ''/api/posts'')]\<rparr>"

text \<open>A read request that carries a TTL directive, and a configuration with a scope.\<close>

definition ttlRequest :: "string \<Rightarrow> string \<Rightarrow> request" where
  "ttlRequest u v =
     \<lparr>req_url = u, req_method = ''GET'', req_headers = [(''X-SW-Cache-TTL-Seconds'', v)]\<rparr>"

definition scoped :: config where
  "scoped = defaults\<lparr>scope := [''/api/'']\<rparr>"

text \<open>A read request carrying a strategy directive and a stale-TTL directive.\<close>

definition strategyRequest :: "string \<Rightarrow> string \<Rightarrow> string \<Rightarrow> request" where
  "strategyRequest u s v =
     \<lparr>req_url = u, req_method = ''GET'',
      req_headers = [(''X-SW-Cache-Strategy'', s), (''X-SW-Cache-Stale-TTL-Seconds'', v)]\<rparr>"

text \<open>A read request with a given list of headers.\<close>

definition getRequest :: "string \<Rightarrow> headers \<Rightarrow> request" where
  "getRequest u hs = \<lparr>req_url = u, req_method = ''GET'', req_headers = hs\<rparr>"

subsection \<open>Notions used in the statements\<close>

text \<open>
  A handler instance serving a sequence of requests, each turn followed by the work it
  started; the result records which requests started a sweep. \<open>sweepLog\<close> is the same
  record computed from the counter bookkeeping alone.
\<close>

fun serve :: "platform \<Rightarrow> config \<Rightarrow> env \<Rightarrow> sw \<Rightarrow> request list \<Rightarrow> bool list" where
  "serve P cfg E st [] = []"
| "serve P cfg E st (rq # rqs) =
     (Sweep \<in> set (spawned (handleRequest P cfg E st rq)))
       # serve P cfg E (settled P cfg (later E) (handleRequest P cfg E st rq)) rqs"

fun sweepLog :: "nat \<Rightarrow> nat \<Rightarrow> bool list" where
  "sweepLog c 0 = []"
| "sweepLog c (Suc k) = snd (periodicCleanup c) # sweepLog (fst (periodicCleanup c)) k"

text \<open>
  A request that reaches a strategy: no clear and no invalidation directive, method
  \<^verbatim>\<open>GET\<close>, a URL that parses and has the worker's origin, in scope or with a TTL
  directive, and a TTL that is not ``disabled''.
\<close>

definition handledRead :: "platform \<Rightarrow> config \<Rightarrow> request \<Rightarrow> bool" where
  "handledRead P cfg rq \<longleftrightarrow>
     getHeader (req_headers rq) CACHE_CLEAR_HEADER = None \<and>
     getAllHeaders (req_headers rq) CACHE_INVALIDATE_HEADER = [] \<and>
     req_method rq = ''GET'' \<and>
     (case URL P (req_url rq) of
        None \<Rightarrow> False
      | Some u \<Rightarrow> (case self_origin P of None \<Rightarrow> True | Some own \<Rightarrow> origin u = own)) \<and>
     (matchesScope P (req_url rq) (scope cfg) (defaultTTLSeconds cfg) = Inr True
        \<or> getHeader (req_headers rq) CACHE_TTL_HEADER \<noteq> None) \<and>
     getTTL (req_headers rq) (defaultTTLSeconds cfg) \<noteq> None"

text \<open>The sweep task started by the bookkeeping of a read request, if any.\<close>

definition sweepDue :: "sw \<Rightarrow> task list" where
  "sweepDue st = (if snd (periodicCleanup (fetchCounter st)) then [Sweep] else [])"

section \<open>Properties\<close>

subsection \<open>Freshness\<close>

lemma parseInt_empty: "parseInt [] = None"
  by (simp add: parseInt_def)

lemma stamped_1000: "getHeader (headers (stamped ''1000'')) CACHE_TIMESTAMP_HEADER = Some ''1000''"
  by code_simp

lemma stamped_soon: "getHeader (headers (stamped ''soon'')) CACHE_TIMESTAMP_HEADER = Some ''soon''"
  by code_simp

lemma parseInt_1000: "parseInt ''1000'' = Some 1000"
  by code_simp

lemma parseInt_soon: "parseInt ''soon'' = None"
  by code_simp

text \<open>
  Claim C5. For a cached response whose timestamp header parses to \<open>ts\<close>, read at instant
  \<open>n\<close>: \<open>isFresh\<close> holds exactly when the age \<open>n - ts\<close> is below \<open>t * 1000\<close>, so an age of
  exactly \<open>t * 1000\<close> is not fresh; \<open>isStale\<close> with a stale-TTL \<open>s\<close> holds exactly when
  \<open>t * 1000 \<le> n - ts < s * 1000\<close>, and it is false without a stale-TTL. When the header
  is missing or does not parse, \<open>isFresh\<close>, \<open>isStale\<close> and \<open>isOlderThanMaxAge\<close> are all
  false.
\<close>

theorem freshness_predicates:
  "(getHeader (headers r) CACHE_TIMESTAMP_HEADER = Some v \<and> parseInt v = Some ts \<longrightarrow>
      (isFresh n r t \<longleftrightarrow> n - ts < t * 1000) \<and>
      (n - ts = t * 1000 \<longrightarrow> \<not> isFresh n r t) \<and>
      (isStale n r t (Some s) \<longleftrightarrow> t * 1000 \<le> n - ts \<and> n - ts < s * 1000)) \<and>
   \<not> isStale n r t None \<and>
   (getHeader (headers r) CACHE_TIMESTAMP_HEADER = None \<or>
    (\<exists>w. getHeader (headers r) CACHE_TIMESTAMP_HEADER = Some w \<and> parseInt w = None) \<longrightarrow>
      \<not> isFresh n r t \<and> \<not> isStale n r t st \<and> \<not> isOlderThanMaxAge n r m)"
  by (auto simp: isFresh_def isStale_def isOlderThanMaxAge_def getCacheTimestamp_def
      parseInt_empty split: option.splits)

theorem freshness_predicates_witness:
  "getHeader (headers (stamped ''1000'')) CACHE_TIMESTAMP_HEADER = Some ''1000'' \<and>
   parseInt ''1000'' = Some 1000 \<and>
   isFresh 5999 (stamped ''1000'') 5 \<and> \<not> isFresh 6000 (stamped ''1000'') 5 \<and>
   isStale 6000 (stamped ''1000'') 5 (Some 10) \<and>
   \<not> isStale 11000 (stamped ''1000'') 5 (Some 10) \<and>
   getHeader (headers (stamped ''soon'')) CACHE_TIMESTAMP_HEADER = Some ''soon'' \<and>
   parseInt ''soon'' = None \<and>
   \<not> isFresh 0 (stamped ''soon'') 5 \<and> \<not> isStale 0 (stamped ''soon'') 5 (Some 10) \<and>
   \<not> isOlderThanMaxAge 0 (stamped ''soon'') 1"
  using freshness_predicates [of "stamped ''1000''" "''1000''" 1000 5999 5 10 "Some 10" 1]
    freshness_predicates [of "stamped ''1000''" "''1000''" 1000 6000 5 10 "Some 10" 1]
    freshness_predicates [of "stamped ''1000''" "''1000''" 1000 11000 5 10 "Some 10" 1]
    freshness_predicates [of "stamped ''soon''" "''soon''" 0 0 5 10 "Some 10" 1]
  by (simp add: stamped_1000 stamped_soon parseInt_1000 parseInt_soon)

subsection \<open>Splitting header values\<close>

lemma split_from_nonempty: "split_from sep acc s \<noteq> []"
  by (induction sep acc s rule: split_from.induct) (subst split_from.simps, simp)

lemma join_Cons: "join sep (p # ps) = (if ps = [] then p else p @ sep @ join sep ps)"
  by (cases ps) simp_all

lemma join_split_from: "sep \<noteq> [] \<Longrightarrow> join sep (split_from sep acc s) = acc @ s"
proof (induction sep acc s rule: split_from.induct)
  case (1 sep acc s)
  show ?case
  proof (cases "s = []")
    case True
    then show ?thesis by (subst split_from.simps) simp
  next
    case False
    show ?thesis
    proof (cases "take (length sep) s = sep")
      case True
      have "join sep (split_from sep acc s) = acc @ sep @ drop (length sep) s"
        using False True 1 by (subst split_from.simps) (simp add: join_Cons split_from_nonempty)
      also have "sep @ drop (length sep) s = s"
        using True by (metis append_take_drop_id)
      finally show ?thesis .
    next
      case no: False
      have "join sep (split_from sep acc s) = (acc @ [hd s]) @ tl s"
        using False no 1 by (subst split_from.simps) simp
      then show ?thesis using False by simp
    qed
  qed
qed

lemma includes_str_iff:
  "includes_str s t \<longleftrightarrow> (\<exists>i \<le> length s. take (length t) (drop i s) = t)"
  by (simp add: includes_str_def list_ex_iff Bex_def less_Suc_eq_le del: upt_Suc)

lemma includes_str_append: "includes_str (a @ t @ b) t"
  unfolding includes_str_iff by (rule exI [of _ "length a"]) simp

lemma take_drop_append_occ:
  assumes "i \<le> length acc" "take (length sep) (drop i acc) = sep"
  shows "take (length sep) (drop i (acc @ s)) = sep"
proof -
  have "length (take (length sep) (drop i acc)) = length sep"
    using assms(2) by simp
  then have "length sep \<le> length (drop i acc)"
    by simp
  then show ?thesis using assms by simp
qed

lemma split_from_pieces:
  "sep \<noteq> [] \<Longrightarrow> \<forall>i < length acc. take (length sep) (drop i (acc @ s)) \<noteq> sep \<Longrightarrow>
   p \<in> set (split_from sep acc s) \<Longrightarrow> \<not> includes_str p sep"
proof (induction sep acc s arbitrary: p rule: split_from.induct)
  case (1 sep acc s)
  have acc_clean: "\<not> includes_str acc sep"
  proof
    assume "includes_str acc sep"
    then obtain i where i: "i \<le> length acc" "take (length sep) (drop i acc) = sep"
      unfolding includes_str_iff by blast
    with 1(3) have "i < length acc"
      by (cases "i = length acc") auto
    moreover have "take (length sep) (drop i (acc @ s)) = sep"
      using i by (rule take_drop_append_occ)
    ultimately show False using 1(4) by blast
  qed
  show ?case
  proof (cases "s = []")
    case True
    with 1(5) have "p = acc" by (subst (asm) split_from.simps) simp
    then show ?thesis using acc_clean by simp
  next
    case False
    show ?thesis
    proof (cases "take (length sep) s = sep")
      case True
      with False 1(3,5) have "p = acc \<or> p \<in> set (split_from sep [] (drop (length sep) s))"
        by (subst (asm) split_from.simps) simp
      then show ?thesis
      proof
        assume "p = acc" then show ?thesis using acc_clean by simp
      next
        assume "p \<in> set (split_from sep [] (drop (length sep) s))"
        then show ?thesis using 1(1) [of p] False True 1(3) by simp
      qed
    next
      case no: False
      with False 1(5) have mem: "p \<in> set (split_from sep (acc @ [hd s]) (tl s))"
        by (subst (asm) split_from.simps) simp
      have eq: "(acc @ [hd s]) @ tl s = acc @ s" using False by simp
      have "\<forall>i < length (acc @ [hd s]). take (length sep) (drop i ((acc @ [hd s]) @ tl s)) \<noteq> sep"
      proof (intro allI impI)
        fix i assume "i < length (acc @ [hd s])"
        then consider "i < length acc" | "i = length acc" by fastforce
        then show "take (length sep) (drop i ((acc @ [hd s]) @ tl s)) \<noteq> sep"
        proof cases
          case 1 then show ?thesis using \<open>\<forall>i<length acc. _\<close> unfolding eq by blast
        next
          case 2 then show ?thesis unfolding eq using no by simp
        qed
      qed
      then show ?thesis using 1(2) [of p] False no 1(3) mem by blast
    qed
  qed
qed

lemma split_pieces: "sep \<noteq> [] \<Longrightarrow> p \<in> set (split v sep) \<Longrightarrow> \<not> includes_str p sep"
  unfolding split_def by (rule split_from_pieces) auto

lemma join_split: "sep \<noteq> [] \<Longrightarrow> join sep (split v sep) = v"
  by (simp add: split_def join_split_from)


lemma split_many_iff: "sep \<noteq> [] \<Longrightarrow> length (split v sep) > 1 \<longleftrightarrow> includes_str v sep"
proof
  assume sep: "sep \<noteq> []" and "length (split v sep) > 1"
  then obtain p q ps where "split v sep = p # q # ps"
    by (cases "split v sep"; cases "tl (split v sep)") auto
  then have "v = p @ sep @ join sep (q # ps)"
    using join_split [OF sep, of v] by simp
  then show "includes_str v sep" using includes_str_append [of p sep "join sep (q # ps)"] by simp
next
  assume sep: "sep \<noteq> []" and inc: "includes_str v sep"
  show "length (split v sep) > 1"
  proof (rule ccontr)
    assume "\<not> length (split v sep) > 1"
    then obtain p where p: "split v sep = [p]"
      using split_from_nonempty [of sep "[]" v] unfolding split_def
      by (cases "split_from sep [] v"; cases "tl (split_from sep [] v)") auto
    then have "p = v" using join_split [OF sep, of v] by simp
    then show False using split_pieces [OF sep, of v v] p inc by simp
  qed
qed

lemma getAllHeaders_pieces: "p \<in> set (getAllHeaders hs name) \<Longrightarrow> \<not> includes_str p '', ''"
  by (induction hs name rule: getAllHeaders.induct) (auto simp: split_pieces split: if_splits)


lemma length_normalizePaths: "length (normalizePaths P u ds) = length ds"
  by (simp add: normalizePaths_def Let_def split: option.splits)

lemma getAllHeaders_concat:
  "getAllHeaders hs name =
     concat (map (\<lambda>h. split (snd h) '', '')
       (filter (\<lambda>h. toLowerCase (fst h) = toLowerCase name) hs))"
  by (induction hs name rule: getAllHeaders.induct) auto

lemma getAllHeaders_member:
  "(key, v) \<in> set hs \<Longrightarrow> toLowerCase key = toLowerCase name \<Longrightarrow>
   set (split v '', '') \<subseteq> set (getAllHeaders hs name)"
  by (induction hs name rule: getAllHeaders.induct) auto

text \<open>
  Claim C10. For any request without a clear directive that carries an invalidation
  directive with value \<open>v\<close>, whatever other headers and further directives it has: the
  handler's directive list is the concatenation, in header order, of every directive
  value split at \<open>'', ''\<close>; the pieces of \<open>v\<close> are all in it, joining them with \<open>'', ''\<close>
  gives \<open>v\<close> back, and there is more than one piece exactly when \<open>v\<close> contains \<open>'', ''\<close>;
  no entry of the list contains \<open>'', ''\<close>, so every value is cut at every occurrence; and
  every entry becomes a target of its own, resolved and deleted separately by the handler
  before its one network call. Hence no single directive can name a path that contains a
  comma followed by a space.
\<close>

theorem invalidate_header_split:
  assumes "getHeader (req_headers rq) CACHE_CLEAR_HEADER = None"
    and "(key, v) \<in> set (req_headers rq)"
    and "toLowerCase key = toLowerCase CACHE_INVALIDATE_HEADER"
    and "ds = getAllHeaders (req_headers rq) CACHE_INVALIDATE_HEADER"
  shows "ds = concat (map (\<lambda>h. split (snd h) '', '')
            (filter (\<lambda>h. toLowerCase (fst h) = toLowerCase CACHE_INVALIDATE_HEADER)
               (req_headers rq))) \<and>
     set (split v '', '') \<subseteq> set ds \<and>
     join '', '' (split v '', '') = v \<and>
     (includes_str v '', '' \<longleftrightarrow> length (split v '', '') > 1) \<and>
     (\<forall>p \<in> set ds. \<not> includes_str p '', '') \<and>
     pathsToInvalidate P cfg rq = Inr (normalizePaths P (req_url rq) ds) \<and>
     length (normalizePaths P (req_url rq) ds) = length ds \<and>
     result (handleRequest P cfg E st rq) = settle (net E rq) \<and>
     store (handleRequest P cfg E st rq) =
       invalidateCache P (cache st) (normalizePaths P (req_url rq) ds) \<and>
     events (handleRequest P cfg E st rq) =
       Open # map DeleteIgnoreSearch (normalizePaths P (req_url rq) ds) @ [Fetch (req_url rq)]"
proof -
  have sep: "'', '' \<noteq> []" by simp
  have sub: "set (split v '', '') \<subseteq> set ds"
    unfolding assms(4) using assms(2,3) by (rule getAllHeaders_member)
  have "split v '', '' \<noteq> []" by (simp add: split_def split_from_nonempty)
  then have ne: "ds \<noteq> []" using sub by (cases "split v '', ''") auto
  have nn: "normalizePaths P (req_url rq) ds \<noteq> []"
    using ne length_normalizePaths [of P "req_url rq" ds] by (metis length_0_conv)
  have p: "pathsToInvalidate P cfg rq = Inr (normalizePaths P (req_url rq) ds)"
    using ne assms(4) by (simp add: pathsToInvalidate_def)
  have h: "handleRequest P cfg E st rq =
      \<lparr>result = settle (net E rq),
       store = invalidateCache P (cache st) (normalizePaths P (req_url rq) ds),
       counter = fetchCounter st,
       events = Open # map DeleteIgnoreSearch (normalizePaths P (req_url rq) ds)
                @ [Fetch (req_url rq)],
       spawned = []\<rparr>"
    using ne assms(1,4) nn p by (simp add: handleRequest_def Let_def)
  have pieces: "\<forall>p \<in> set ds. \<not> includes_str p '', ''"
    unfolding assms(4) using getAllHeaders_pieces by blast
  have c: "ds = concat (map (\<lambda>h. split (snd h) '', '')
            (filter (\<lambda>h. toLowerCase (fst h) = toLowerCase CACHE_INVALIDATE_HEADER)
               (req_headers rq)))"
    unfolding assms(4) by (rule getAllHeaders_concat)
  show ?thesis
    using c sub pieces p h join_split [OF sep, of v] split_many_iff [OF sep, of v]
      length_normalizePaths [of P "req_url rq" ds]
    by simp
qed

theorem invalidate_header_split_witness:
  "getHeader (req_headers mixedRequest) CACHE_CLEAR_HEADER = None \<and>
   (''X-SW-Cache-Invalidate'', ''/api/users, /api/teams'') \<in> set (req_headers mixedRequest) \<and>
   toLowerCase ''X-SW-Cache-Invalidate'' = toLowerCase CACHE_INVALIDATE_HEADER \<and>
   getAllHeaders (req_headers mixedRequest) CACHE_INVALIDATE_HEADER
     = [''/api/users'', ''/api/teams'', ''/api/posts''] \<and>
   includes_str ''/api/users, /api/teams'' '', '' \<and>
   length (split ''/api/users, /api/teams'' '', '') > 1 \<and>
   events (handleRequest plain defaults (failing 0 0 ''offline'') (holding [] 0) mixedRequest) =
    [Open, DeleteIgnoreSearch ''https://example.com/api/users'',
     DeleteIgnoreSearch ''https://example.com/api/teams'',
     DeleteIgnoreSearch ''https://example.com/api/posts'',
     Fetch ''https://example.com/api/users/123'']"
proof -
  have h: "getHeader (req_headers mixedRequest) CACHE_CLEAR_HEADER = None"
    "(''X-SW-Cache-Invalidate'', ''/api/users, /api/teams'') \<in> set (req_headers mixedRequest)"
    "toLowerCase ''X-SW-Cache-Invalidate'' = toLowerCase CACHE_INVALIDATE_HEADER"
    by (code_simp, simp add: mixedRequest_def, code_simp)
  have g: "getAllHeaders (req_headers mixedRequest) CACHE_INVALIDATE_HEADER
     = [''/api/users'', ''/api/teams'', ''/api/posts'']"
    by code_simp
  have n: "normalizePaths plain ''https://example.com/api/users/123'' [''/api/users'', ''/api/teams'', ''/api/posts'']
     = [''https://example.com/api/users'', ''https://example.com/api/teams'',
        ''https://example.com/api/posts'']"
    by code_simp
  have i: "includes_str ''/api/users, /api/teams'' '', ''"
    by code_simp
  have u: "req_url mixedRequest = ''https://example.com/api/users/123''"
    by (simp add: mixedRequest_def)
  note t = invalidate_header_split [OF h g [symmetric], of plain defaults
      "failing 0 0 ''offline''" "holding [] 0"]
  have l: "length (split ''/api/users, /api/teams'' '', '') > 1"
    using t i by blast
  have ev: "events (handleRequest plain defaults (failing 0 0 ''offline'') (holding [] 0) mixedRequest) =
    [Open, DeleteIgnoreSearch ''https://example.com/api/users'',
     DeleteIgnoreSearch ''https://example.com/api/teams'',
     DeleteIgnoreSearch ''https://example.com/api/posts'',
     Fetch ''https://example.com/api/users/123'']"
  proof -
    from t have "events (handleRequest plain defaults (failing 0 0 ''offline'') (holding [] 0) mixedRequest) =
      Open # map DeleteIgnoreSearch
        (normalizePaths plain (req_url mixedRequest) [''/api/users'', ''/api/teams'', ''/api/posts''])
        @ [Fetch (req_url mixedRequest)]"
      by blast
    then show ?thesis by (simp add: u n)
  qed
  show ?thesis
    using h g i l ev by blast
qed

subsection \<open>Invalidation by pathname\<close>

lemma plain_users: "URL plain ''https://example.com/api/users'' =
    Some \<lparr>origin = ''https://example.com'', pathname = ''/api/users''\<rparr>"
  by code_simp

text \<open>
  Claim C7. Applying one invalidation target that parses as a URL removes exactly the
  cache entries whose key parses to the same pathname, whatever their query string, and
  keeps every other entry as it is and where it is. A target that is a bare path starting
  with a slash removes the entries of that pathname in the same way. With the target
  \<^verbatim>\<open>/api/users\<close> the three query variants go and \<^verbatim>\<open>/api/posts\<close> stays.
\<close>

theorem invalidate_by_pathname:
  "(URL P target = Some tu \<longrightarrow>
      invalidateCache P c [target] =
        filter (\<lambda>e. \<not> (case URL P (fst e) of None \<Rightarrow> False
                                          | Some ku \<Rightarrow> pathname ku = pathname tu)) c) \<and>
   (URL P target = None \<and> startsWith target ''/'' \<longrightarrow>
      invalidateCache P c [target] =
        filter (\<lambda>e. \<not> (case URL P (fst e) of None \<Rightarrow> False
                                          | Some ku \<Rightarrow> pathname ku = target)) c)"
  by (simp add: cache_delete_def delete_by_pathname_def hasPathname_def)

theorem invalidate_by_pathname_witness:
  "URL plain ''https://example.com/api/users'' =
      Some \<lparr>origin = ''https://example.com'', pathname = ''/api/users''\<rparr> \<and>
   invalidateCache plain users4 [''https://example.com/api/users''] =
      [(''https://example.com/api/posts'', bare 200 ''posts'')] \<and>
   URL plain ''/api/users'' = None \<and> startsWith ''/api/users'' ''/'' \<and>
   invalidateCache plain users4 [''/api/users''] =
      [(''https://example.com/api/posts'', bare 200 ''posts'')]"
proof -
  have bare_path: "URL plain ''/api/users'' = None \<and> startsWith ''/api/users'' ''/''"
    by code_simp
  have "invalidateCache plain users4 [''https://example.com/api/users''] =
      filter (\<lambda>e. \<not> (case URL plain (fst e) of None \<Rightarrow> False
          | Some ku \<Rightarrow> pathname ku
              = pathname \<lparr>origin = ''https://example.com'', pathname = ''/api/users''\<rparr>)) users4"
    using invalidate_by_pathname [of plain "''https://example.com/api/users''" _ users4] plain_users
    by blast
  also have "\<dots> = [(''https://example.com/api/posts'', bare 200 ''posts'')]"
    by code_simp
  finally have full: "invalidateCache plain users4 [''https://example.com/api/users''] =
      [(''https://example.com/api/posts'', bare 200 ''posts'')]" .
  have "invalidateCache plain users4 [''/api/users''] =
      filter (\<lambda>e. \<not> (case URL plain (fst e) of None \<Rightarrow> False
          | Some ku \<Rightarrow> pathname ku = ''/api/users'')) users4"
    using invalidate_by_pathname [of plain "''/api/users''" _ users4] bare_path
    by blast
  also have "\<dots> = [(''https://example.com/api/posts'', bare 200 ''posts'')]"
    by code_simp
  finally show ?thesis
    using plain_users full bare_path by simp
qed

subsection \<open>Invalidation targets\<close>

lemma lastIndexOf_snoc:
  "lastIndexOf (s @ [x]) ch = (if x = ch then int (length s) else lastIndexOf s ch)"
proof -
  have "filter (\<lambda>i. (s @ [x]) ! i = ch) (rev [0..<length s])
      = filter (\<lambda>i. s ! i = ch) (rev [0..<length s])"
    by (rule filter_cong) (auto simp: nth_append)
  then show ?thesis
    by (simp add: lastIndexOf_def)
qed

lemma lastIndexOf_last_occurrence:
  "ch \<notin> set seg \<Longrightarrow> lastIndexOf (pre @ ch # seg) ch = int (length pre)"
proof (induction seg rule: rev_induct)
  case Nil
  show ?case using lastIndexOf_snoc [of pre ch ch] by simp
next
  case (snoc x xs)
  have "lastIndexOf ((pre @ ch # xs) @ [x]) ch = lastIndexOf (pre @ ch # xs) ch"
    using snoc.prems by (subst lastIndexOf_snoc) auto
  then show ?case using snoc by simp
qed

lemma normalizePaths_parsed:
  "list_all (\<lambda>d. URL P d \<noteq> None) ds \<Longrightarrow> normalizePaths P u ds = ds"
  by (auto simp: normalizePaths_def Let_def list_all_iff comp_def map_idI split: option.splits)

lemma not_mutation_GET: "isMutation m \<Longrightarrow> m \<noteq> ''GET''"
  by (auto simp: isMutation_def)

text \<open>
  Claim C6. For a mutating request without a clear directive whose URL parses: when
  invalidation directives are present, the targets are exactly these directives (each
  resolved to a full URL), whether or not inference is enabled; without directives and with
  inference enabled, the targets are the request URL and the parent URL built from the
  pathname in front of its last slash, and only the request URL when that slash is the
  leading one (root and single-segment paths); the handler deletes exactly these targets
  and then calls the network. Without directives and with inference disabled the handler
  returns the not-handled value, leaves the cache as it is and touches neither store nor
  network.
\<close>

theorem invalidation_targets:
  assumes "isMutation (req_method rq)"
    and "getHeader (req_headers rq) CACHE_CLEAR_HEADER = None"
    and "URL P (req_url rq) = Some u"
  shows "(getAllHeaders (req_headers rq) CACHE_INVALIDATE_HEADER \<noteq> [] \<longrightarrow>
      pathsToInvalidate P cfg rq =
        Inr (normalizePaths P (req_url rq) (getAllHeaders (req_headers rq) CACHE_INVALIDATE_HEADER))) \<and>
    (getAllHeaders (req_headers rq) CACHE_INVALIDATE_HEADER = [] \<and> inferInvalidation cfg \<and>
     pathname u = pre @ ''/'' @ seg \<and> CHR ''/'' \<notin> set seg \<longrightarrow>
       (pre = [] \<longrightarrow> pathsToInvalidate P cfg rq = Inr [req_url rq]) \<and>
       (pre \<noteq> [] \<and> URL_base P pre (origin u) = Some parent \<and> URL P parent \<noteq> None \<longrightarrow>
          pathsToInvalidate P cfg rq = Inr [req_url rq, parent])) \<and>
    (pathsToInvalidate P cfg rq = Inr paths \<and>
     (getAllHeaders (req_headers rq) CACHE_INVALIDATE_HEADER \<noteq> [] \<or> inferInvalidation cfg) \<longrightarrow>
       store (handleRequest P cfg E st rq) = invalidateCache P (cache st) paths \<and>
       result (handleRequest P cfg E st rq) = settle (net E rq)) \<and>
    (getAllHeaders (req_headers rq) CACHE_INVALIDATE_HEADER = [] \<and> \<not> inferInvalidation cfg \<longrightarrow>
       result (handleRequest P cfg E st rq) = NotHandled \<and>
       store (handleRequest P cfg E st rq) = cache st \<and>
       events (handleRequest P cfg E st rq) = [])"
proof (intro conjI impI)
  assume "getAllHeaders (req_headers rq) CACHE_INVALIDATE_HEADER \<noteq> []"
  then show "pathsToInvalidate P cfg rq =
        Inr (normalizePaths P (req_url rq) (getAllHeaders (req_headers rq) CACHE_INVALIDATE_HEADER))"
    by (simp add: pathsToInvalidate_def)
next
  assume a: "getAllHeaders (req_headers rq) CACHE_INVALIDATE_HEADER = [] \<and> inferInvalidation cfg \<and>
     pathname u = pre @ ''/'' @ seg \<and> CHR ''/'' \<notin> set seg"
  then have last: "lastIndexOf (pathname u) CHR ''/'' = int (length pre)"
    using lastIndexOf_last_occurrence [of "CHR ''/''" seg pre] by simp
  {
    assume "pre = []"
    then have "getInferredInvalidationPaths P (req_url rq) = Inr [req_url rq]"
      using assms(3) last by (simp add: getInferredInvalidationPaths_def)
    then show "pathsToInvalidate P cfg rq = Inr [req_url rq]"
      using a assms(1,3) by (simp add: pathsToInvalidate_def normalizePaths_parsed)
  }
  {
    assume b: "pre \<noteq> [] \<and> URL_base P pre (origin u) = Some parent \<and> URL P parent \<noteq> None"
    then have "getInferredInvalidationPaths P (req_url rq) = Inr [req_url rq, parent]"
      using assms(3) last a by (simp add: getInferredInvalidationPaths_def substring0_def)
    then show "pathsToInvalidate P cfg rq = Inr [req_url rq, parent]"
      using a b assms(1,3) by (simp add: pathsToInvalidate_def normalizePaths_parsed)
  }
next
  assume c: "pathsToInvalidate P cfg rq = Inr paths \<and>
     (getAllHeaders (req_headers rq) CACHE_INVALIDATE_HEADER \<noteq> [] \<or> inferInvalidation cfg)"
  then show "store (handleRequest P cfg E st rq) = invalidateCache P (cache st) paths"
    using assms(1,2) by (auto simp: handleRequest_def)
  from c show "result (handleRequest P cfg E st rq) = settle (net E rq)"
    using assms(1,2) by (auto simp: handleRequest_def)
next
  assume d: "getAllHeaders (req_headers rq) CACHE_INVALIDATE_HEADER = [] \<and> \<not> inferInvalidation cfg"
  then have "handleRequest P cfg E st rq = notHandled (cache st) (fetchCounter st) []"
    using assms(2) not_mutation_GET [OF assms(1)] by (simp add: handleRequest_def)
  then show "result (handleRequest P cfg E st rq) = NotHandled"
    and "store (handleRequest P cfg E st rq) = cache st"
    and "events (handleRequest P cfg E st rq) = []"
    by (simp_all add: notHandled_def)
qed


theorem invalidation_targets_witness:
  "isMutation ''PATCH'' \<and> isMutation ''DELETE'' \<and> isMutation ''POST'' \<and>
   URL plain ''https://example.com/api/users/123'' =
     Some \<lparr>origin = ''https://example.com'', pathname = ''/api/users'' @ ''/'' @ ''123''\<rparr> \<and>
   URL plain ''https://example.com/api'' =
     Some \<lparr>origin = ''https://example.com'', pathname = [] @ ''/'' @ ''api''\<rparr> \<and>
   pathsToInvalidate plain defaults
     (invalidating ''PATCH'' ''https://example.com/api/users/123'' ''/api/teams'') =
     Inr [''https://example.com/api/teams''] \<and>
   pathsToInvalidate plain defaults (plainRequest ''DELETE'' ''https://example.com/api/users/123'') =
     Inr [''https://example.com/api/users/123'', ''https://example.com/api/users''] \<and>
   pathsToInvalidate plain defaults (plainRequest ''POST'' ''https://example.com/api'') =
     Inr [''https://example.com/api''] \<and>
   store (handleRequest plain defaults (failing 0 0 ''offline'') (holding users4 0)
     (plainRequest ''DELETE'' ''https://example.com/api/users/123'')) =
     [(''https://example.com/api/posts'', bare 200 ''posts'')] \<and>
   result (handleRequest plain noInference (failing 0 0 ''offline'') (holding users4 0)
     (plainRequest ''POST'' ''https://example.com/api/users/123'')) = NotHandled \<and>
   store (handleRequest plain noInference (failing 0 0 ''offline'') (holding users4 0)
     (plainRequest ''POST'' ''https://example.com/api/users/123'')) = users4"
proof -
  let ?u = "''https://example.com/api/users/123''"
  let ?a = "''https://example.com/api''"
  have m: "isMutation ''PATCH''" "isMutation ''DELETE''" "isMutation ''POST''"
    by (simp_all add: isMutation_def)
  have pu: "URL plain ?u =
     Some \<lparr>origin = ''https://example.com'', pathname = ''/api/users'' @ ''/'' @ ''123''\<rparr>"
    by code_simp
  have pa: "URL plain ?a = Some \<lparr>origin = ''https://example.com'', pathname = [] @ ''/'' @ ''api''\<rparr>"
    by code_simp
  have nc: "getHeader (req_headers (invalidating ''PATCH'' ?u ''/api/teams'')) CACHE_CLEAR_HEADER = None"
    "getHeader (req_headers (plainRequest m x)) CACHE_CLEAR_HEADER = None" for m x
    by (code_simp, simp add: plainRequest_def)
  have dirs: "getAllHeaders (req_headers (invalidating ''PATCH'' ?u ''/api/teams''))
      CACHE_INVALIDATE_HEADER = [''/api/teams'']"
    by code_simp
  have nodirs: "getAllHeaders (req_headers (plainRequest m x)) CACHE_INVALIDATE_HEADER = []" for m x
    by (simp add: plainRequest_def)
  have norm: "normalizePaths plain ?u [''/api/teams''] = [''https://example.com/api/teams'']"
    by code_simp
  have parent: "URL_base plain ''/api/users'' ''https://example.com'' = Some ''https://example.com/api/users''"
    "URL plain ''https://example.com/api/users'' \<noteq> None"
    by code_simp+
  have c1: "pathsToInvalidate plain defaults (invalidating ''PATCH'' ?u ''/api/teams'') =
     Inr [''https://example.com/api/teams'']"
    using invalidation_targets [of "invalidating ''PATCH'' ?u ''/api/teams''" plain _ defaults]
      m pu nc dirs norm by (simp add: invalidating_def)
  have c2: "pathsToInvalidate plain defaults (plainRequest ''DELETE'' ?u) =
     Inr [?u, ''https://example.com/api/users'']"
    using invalidation_targets [of "plainRequest ''DELETE'' ?u" plain _ defaults "''/api/users''"
        "''123''" "''https://example.com/api/users''"]
      m pu nc nodirs parent by (simp add: plainRequest_def defaults_def)
  have c3: "pathsToInvalidate plain defaults (plainRequest ''POST'' ?a) = Inr [?a]"
    using invalidation_targets [of "plainRequest ''POST'' ?a" plain _ defaults "[]" "''api''"]
      m pa nc nodirs by (simp add: plainRequest_def defaults_def)
  have "store (handleRequest plain defaults (failing 0 0 ''offline'') (holding users4 0)
     (plainRequest ''DELETE'' ?u)) =
       invalidateCache plain (cache (holding users4 0)) [?u, ''https://example.com/api/users'']"
    using invalidation_targets [of "plainRequest ''DELETE'' ?u" plain _ defaults _ _ _
        "[?u, ''https://example.com/api/users'']" "failing 0 0 ''offline''" "holding users4 0"]
      m pu nc nodirs c2 by (simp add: plainRequest_def defaults_def)
  also have "\<dots> = [(''https://example.com/api/posts'', bare 200 ''posts'')]"
    by code_simp
  finally have c4: "store (handleRequest plain defaults (failing 0 0 ''offline'') (holding users4 0)
     (plainRequest ''DELETE'' ?u)) = [(''https://example.com/api/posts'', bare 200 ''posts'')]" .
  have c5: "result (handleRequest plain noInference (failing 0 0 ''offline'') (holding users4 0)
     (plainRequest ''POST'' ?u)) = NotHandled \<and>
   store (handleRequest plain noInference (failing 0 0 ''offline'') (holding users4 0)
     (plainRequest ''POST'' ?u)) = users4"
    using invalidation_targets [of "plainRequest ''POST'' ?u" plain _ noInference _ _ _ _
        "failing 0 0 ''offline''" "holding users4 0"]
      m pu nc nodirs by (simp add: plainRequest_def noInference_def holding_def)
  show ?thesis
    using m pu pa c1 c2 c3 c4 c5 by blast
qed

subsection \<open>TTL directives\<close>

text \<open>
  Claim C8, as stated, fails: with a default TTL of 300 seconds a TTL directive of \<open>-10\<close>
  or of \<open>soon\<close> makes the handler return the not-handled value, while the same request
  without the directive is handled with the default TTL.
\<close>

theorem ttl_directive_counterexample:
  "getTTL (req_headers (ttlRequest ''https://example.com/api/users'' ''-10'')) 300 = None \<and>
   getTTL (req_headers (plainRequest ''GET'' ''https://example.com/api/users'')) 300 = Some 300 \<and>
   result (handleRequest plain defaults (serving 0 0 (bare 200 ''users'')) (holding [] 5)
     (ttlRequest ''https://example.com/api/users'' ''-10'')) = NotHandled \<and>
   result (handleRequest plain defaults (serving 0 0 (bare 200 ''users'')) (holding [] 5)
     (ttlRequest ''https://example.com/api/users'' ''soon'')) = NotHandled \<and>
   result (handleRequest plain defaults (serving 0 0 (bare 200 ''users'')) (holding [] 5)
     (plainRequest ''GET'' ''https://example.com/api/users'')) = Resolved (bare 200 ''users'')"
  by code_simp

text \<open>
  Claim C8, amended. For a same-origin \<^verbatim>\<open>GET\<close> request without clear or invalidation
  directive: a TTL directive whose value reads as zero, as a negative number or as no
  number at all resolves to ``caching disabled''; the handler returns the not-handled value,
  leaves the cache unchanged and performs no store or network operation in the turn, also
  when the URL is in scope; the only work it may start is the periodic sweep, when the
  counter says so. The configured default TTL is used only when the directive is absent.
\<close>

theorem ttl_directive_opt_out:
  assumes "getHeader (req_headers rq) CACHE_CLEAR_HEADER = None"
    and "getAllHeaders (req_headers rq) CACHE_INVALIDATE_HEADER = []"
    and "req_method rq = ''GET''"
    and "URL P (req_url rq) = Some u"
    and "self_origin P = None \<or> self_origin P = Some (origin u)"
  shows "(getHeader (req_headers rq) CACHE_TTL_HEADER = Some v \<and>
          (parseInt v = None \<or> (\<exists>n. parseInt v = Some n \<and> n \<le> 0)) \<longrightarrow>
            getTTL (req_headers rq) (defaultTTLSeconds cfg) = None \<and>
            result (handleRequest P cfg E st rq) = NotHandled \<and>
            store (handleRequest P cfg E st rq) = cache st \<and>
            events (handleRequest P cfg E st rq) = [] \<and>
            spawned (handleRequest P cfg E st rq) =
              (if snd (periodicCleanup (fetchCounter st)) then [Sweep] else [])) \<and>
         (getHeader (req_headers rq) CACHE_TTL_HEADER = None \<longrightarrow>
            getTTL (req_headers rq) (defaultTTLSeconds cfg) =
              (if defaultTTLSeconds cfg > 0 then Some (defaultTTLSeconds cfg) else None))"
proof (intro conjI impI)
  assume a: "getHeader (req_headers rq) CACHE_TTL_HEADER = Some v \<and>
          (parseInt v = None \<or> (\<exists>n. parseInt v = Some n \<and> n \<le> 0))"
  then show t: "getTTL (req_headers rq) (defaultTTLSeconds cfg) = None"
    by (auto simp: getTTL_def)
  have ms: "\<exists>b. matchesScope P (req_url rq) (scope cfg) (defaultTTLSeconds cfg) = Inr b"
    using assms(4) by (simp add: matchesScope_def)
  have im: "\<not> isMutation ''GET''"
    by (simp add: isMutation_def)
  have "handleRequest P cfg E st rq =
      notHandled (cache st) (fst (periodicCleanup (fetchCounter st)))
        (if snd (periodicCleanup (fetchCounter st)) then [Sweep] else [])"
    using assms a t ms im by (auto simp: handleRequest_def Let_def)
  then show "result (handleRequest P cfg E st rq) = NotHandled"
    and "store (handleRequest P cfg E st rq) = cache st"
    and "events (handleRequest P cfg E st rq) = []"
    and "spawned (handleRequest P cfg E st rq) =
              (if snd (periodicCleanup (fetchCounter st)) then [Sweep] else [])"
    by (simp_all add: notHandled_def)
next
  assume "getHeader (req_headers rq) CACHE_TTL_HEADER = None"
  then show "getTTL (req_headers rq) (defaultTTLSeconds cfg) =
              (if defaultTTLSeconds cfg > 0 then Some (defaultTTLSeconds cfg) else None)"
    by (simp add: getTTL_def)
qed


theorem ttl_directive_opt_out_witness:
  "getHeader (req_headers (ttlRequest ''https://example.com/api/users'' ''0'')) CACHE_CLEAR_HEADER = None \<and>
   getAllHeaders (req_headers (ttlRequest ''https://example.com/api/users'' ''0'')) CACHE_INVALIDATE_HEADER = [] \<and>
   req_method (ttlRequest ''https://example.com/api/users'' ''0'') = ''GET'' \<and>
   URL plain ''https://example.com/api/users'' =
     Some \<lparr>origin = ''https://example.com'', pathname = ''/api/users''\<rparr> \<and>
   self_origin plain = Some ''https://example.com'' \<and>
   getHeader (req_headers (ttlRequest ''https://example.com/api/users'' ''0'')) CACHE_TTL_HEADER = Some ''0'' \<and>
   parseInt ''0'' = Some 0 \<and>
   matchesScope plain ''https://example.com/api/users'' (scope scoped) (defaultTTLSeconds scoped) = Inr True \<and>
   result (handleRequest plain scoped (serving 0 0 (bare 200 ''users'')) (holding users4 5)
     (ttlRequest ''https://example.com/api/users'' ''0'')) = NotHandled \<and>
   store (handleRequest plain scoped (serving 0 0 (bare 200 ''users'')) (holding users4 5)
     (ttlRequest ''https://example.com/api/users'' ''0'')) = users4 \<and>
   events (handleRequest plain scoped (serving 0 0 (bare 200 ''users'')) (holding users4 5)
     (ttlRequest ''https://example.com/api/users'' ''0'')) = [] \<and>
   spawned (handleRequest plain scoped (serving 0 0 (bare 200 ''users'')) (holding users4 5)
     (ttlRequest ''https://example.com/api/users'' ''0'')) = [] \<and>
   getHeader (req_headers (plainRequest ''GET'' ''https://example.com/api/users'')) CACHE_TTL_HEADER = None \<and>
   getTTL (req_headers (plainRequest ''GET'' ''https://example.com/api/users'')) (defaultTTLSeconds scoped)
     = Some 300"
proof -
  let ?u = "''https://example.com/api/users''"
  have h: "getHeader (req_headers (ttlRequest ?u ''0'')) CACHE_CLEAR_HEADER = None"
    "getAllHeaders (req_headers (ttlRequest ?u ''0'')) CACHE_INVALIDATE_HEADER = []"
    "req_method (ttlRequest ?u ''0'') = ''GET''"
    "getHeader (req_headers (ttlRequest ?u ''0'')) CACHE_TTL_HEADER = Some ''0''"
    "parseInt ''0'' = Some 0"
    "matchesScope plain ?u (scope scoped) (defaultTTLSeconds scoped) = Inr True"
    by code_simp+
  have o: "self_origin plain = Some ''https://example.com''"
    by (simp add: plain_def)
  have g: "getHeader (req_headers (plainRequest ''GET'' ?u)) CACHE_CLEAR_HEADER = None"
    "getAllHeaders (req_headers (plainRequest ''GET'' ?u)) CACHE_INVALIDATE_HEADER = []"
    "req_method (plainRequest ''GET'' ?u) = ''GET''"
    "getHeader (req_headers (plainRequest ''GET'' ?u)) CACHE_TTL_HEADER = None"
    by (simp_all add: plainRequest_def)
  have c: "snd (periodicCleanup 5) = False"
    by (simp add: periodicCleanup_def)
  have d: "defaultTTLSeconds scoped = 300"
    by (simp add: scoped_def defaults_def)
  have r1: "req_url (ttlRequest ?u ''0'') = ?u" "req_url (plainRequest ''GET'' ?u) = ?u"
    by (simp_all add: ttlRequest_def plainRequest_def)
  have "result (handleRequest plain scoped (serving 0 0 (bare 200 ''users'')) (holding users4 5)
          (ttlRequest ?u ''0'')) = NotHandled \<and>
        store (handleRequest plain scoped (serving 0 0 (bare 200 ''users'')) (holding users4 5)
          (ttlRequest ?u ''0'')) = users4 \<and>
        events (handleRequest plain scoped (serving 0 0 (bare 200 ''users'')) (holding users4 5)
          (ttlRequest ?u ''0'')) = [] \<and>
        spawned (handleRequest plain scoped (serving 0 0 (bare 200 ''users'')) (holding users4 5)
          (ttlRequest ?u ''0'')) = []"
    using ttl_directive_opt_out [of "ttlRequest ?u ''0''" plain
        "\<lparr>origin = ''https://example.com'', pathname = ''/api/users''\<rparr>" "''0''" scoped
        "serving 0 0 (bare 200 ''users'')" "holding users4 5"]
      h o plain_users c r1 by (simp add: holding_def)
  moreover have "getTTL (req_headers (plainRequest ''GET'' ?u)) (defaultTTLSeconds scoped) = Some 300"
    using ttl_directive_opt_out [of "plainRequest ''GET'' ?u" plain
        "\<lparr>origin = ''https://example.com'', pathname = ''/api/users''\<rparr>" _ scoped]
      g o plain_users d r1 by simp
  ultimately show ?thesis
    using h o g plain_users by blast
qed

subsection \<open>The periodic sweep\<close>

lemma read_request_bookkeeping:
  assumes "getHeader (req_headers rq) CACHE_CLEAR_HEADER = None"
    and "getAllHeaders (req_headers rq) CACHE_INVALIDATE_HEADER = []"
    and "req_method rq = ''GET''"
    and "URL P (req_url rq) = Some u"
    and "self_origin P = None \<or> self_origin P = Some (origin u)"
  shows "counter (handleRequest P cfg E st rq) = fst (periodicCleanup (fetchCounter st))"
    and "Sweep \<in> set (spawned (handleRequest P cfg E st rq)) \<longleftrightarrow> snd (periodicCleanup (fetchCounter st))"
proof -
  have im: "\<not> isMutation ''GET''"
    by (simp add: isMutation_def)
  have "\<exists>b. matchesScope P (req_url rq) (scope cfg) (defaultTTLSeconds cfg) = Inr b"
    using assms(4) by (simp add: matchesScope_def)
  then obtain b where ms: "matchesScope P (req_url rq) (scope cfg) (defaultTTLSeconds cfg) = Inr b"
    by blast
  show "counter (handleRequest P cfg E st rq) = fst (periodicCleanup (fetchCounter st))"
    using assms im ms
    by (auto simp: handleRequest_def Let_def notHandled_def cacheFirst_def networkFirst_def
        staleWhileRevalidate_def fetchAndStore_def split: option.splits sum.splits)
  show "Sweep \<in> set (spawned (handleRequest P cfg E st rq)) \<longleftrightarrow> snd (periodicCleanup (fetchCounter st))"
    using assms im ms
    by (auto simp: handleRequest_def Let_def notHandled_def cacheFirst_def networkFirst_def
        staleWhileRevalidate_def fetchAndStore_def split: option.splits sum.splits)
qed

lemma serve_replicate:
  assumes "getHeader (req_headers rq) CACHE_CLEAR_HEADER = None"
    and "getAllHeaders (req_headers rq) CACHE_INVALIDATE_HEADER = []"
    and "req_method rq = ''GET''"
    and "URL P (req_url rq) = Some u"
    and "self_origin P = None \<or> self_origin P = Some (origin u)"
  shows "serve P cfg E st (replicate k rq) = sweepLog (fetchCounter st) k"
proof (induction k arbitrary: st)
  case 0
  show ?case by simp
next
  case (Suc k)
  have "fetchCounter (settled P cfg (later E) (handleRequest P cfg E st rq))
      = fst (periodicCleanup (fetchCounter st))"
    using read_request_bookkeeping(1) [OF assms] by (simp add: settled_def)
  then show ?case
    using Suc [of "settled P cfg (later E) (handleRequest P cfg E st rq)"]
      read_request_bookkeeping(2) [OF assms, of cfg E st]
    by simp
qed

lemma sweepLog_200:
  "sweepLog 0 200 = True # replicate 98 False @ True # replicate 98 False @ [True, False]"
  by code_simp

text \<open>
  Claim C9, evaluated. A fresh handler instance that serves 200 same-origin \<^verbatim>\<open>GET\<close>
  requests starts a sweep on the requests number 1, 100 and 199: after the sweep of the
  100th request the counter is 1, so it reaches 100 again after 99 further requests, and the
  200th request starts none.
\<close>

theorem periodic_sweep_requests:
  "serve plain defaults (failing 0 0 ''offline'') (holding [] 0)
     (replicate 200 (plainRequest ''GET'' ''https://example.com/api/users''))
   = True # replicate 98 False @ True # replicate 98 False @ [True, False]"
proof -
  let ?rq = "plainRequest ''GET'' ''https://example.com/api/users''"
  have "serve plain defaults (failing 0 0 ''offline'') (holding [] 0) (replicate 200 ?rq)
      = sweepLog (fetchCounter (holding [] 0)) 200"
    by (rule serve_replicate [where u = "\<lparr>origin = ''https://example.com'', pathname = ''/api/users''\<rparr>"])
      (simp_all add: plainRequest_def plain_users, simp add: plain_def)
  then show ?thesis
    by (simp only: sweepLog_200 holding_def sw.simps)
qed

subsection \<open>The timestamp written by \<^verbatim>\<open>addTimestamp\<close>\<close>

lemma digitVal_digitChar: "d < 10 \<Longrightarrow> digitVal (digitChar d) = d"
  by (simp add: digitVal_def digitChar_def)

lemma isDigit_digitChar: "d < 10 \<Longrightarrow> isDigit (digitChar d)"
  by (simp add: isDigit_def digitChar_def)

lemma natToString_digits: "list_all isDigit (natToString n) \<and> natToString n \<noteq> []"
proof (induction n rule: natToString.induct)
  case (1 n)
  show ?case
  proof (cases "n < 10")
    case True
    then show ?thesis by (subst (1 2) natToString.simps) (simp add: isDigit_digitChar)
  next
    case False
    then show ?thesis using 1 by (subst (1 2) natToString.simps) (simp add: isDigit_digitChar)
  qed
qed

lemma digitsVal_snoc: "digitsVal (ds @ [ch]) = digitsVal ds * 10 + digitVal ch"
  by (simp add: digitsVal_def)

lemma digitsVal_natToString: "digitsVal (natToString n) = n"
proof (induction n rule: natToString.induct)
  case (1 n)
  show ?case
  proof (cases "n < 10")
    case True
    then show ?thesis by (subst natToString.simps) (simp add: digitsVal_def digitVal_digitChar)
  next
    case False
    then have "digitsVal (natToString n) = digitsVal (natToString (n div 10)) * 10 + n mod 10"
      by (subst natToString.simps) (simp add: digitsVal_snoc digitVal_digitChar)
    then show ?thesis using 1 False by simp
  qed
qed

lemma isDigit_plain: "isDigit ch \<Longrightarrow> \<not> isWhiteSpace ch \<and> ch \<noteq> CHR ''-'' \<and> ch \<noteq> CHR ''+''"
  by (auto simp: isDigit_def isWhiteSpace_def)

lemma parseInt_digits:
  assumes "list_all isDigit ds" "ds \<noteq> []"
  shows "parseInt ds = Some (int (digitsVal ds))"
    and "parseInt (CHR ''-'' # ds) = Some (- int (digitsVal ds))"
proof -
  obtain d rest where ds: "ds = d # rest" using assms(2) by (cases ds) auto
  have d: "isDigit d" using assms(1) ds by simp
  have tw: "takeWhile isDigit ds = ds"
    using assms(1) by (simp add: list_all_iff)
  have dw: "dropWhile isWhiteSpace ds = ds"
    using isDigit_plain [OF d] ds by simp
  show "parseInt ds = Some (int (digitsVal ds))"
    using isDigit_plain [OF d] assms(2) by (simp add: parseInt_def Let_def tw dw) (simp add: ds)
  have minus: "\<not> isWhiteSpace CHR ''-''"
    by (simp add: isWhiteSpace_def)
  show "parseInt (CHR ''-'' # ds) = Some (- int (digitsVal ds))"
    using minus assms(2) by (simp add: parseInt_def Let_def tw)
qed

lemma parseInt_toString: "parseInt (toString n) = Some n"
proof (cases "n < 0")
  case True
  then show ?thesis
    using parseInt_digits(2) [of "natToString (nat (- n))"] natToString_digits [of "nat (- n)"]
    by (simp add: toString_def digitsVal_natToString)
next
  case False
  then show ?thesis
    using parseInt_digits(1) [of "natToString (nat n)"] natToString_digits [of "nat n"]
    by (simp add: toString_def digitsVal_natToString)
qed

lemma toString_nonempty: "toString n \<noteq> []"
  using natToString_digits by (simp add: toString_def)

lemma getHeader_filtered:
  "getHeader (filter (\<lambda>(key, _). toLowerCase key \<noteq> toLowerCase name) hs @ rest) name
     = getHeader rest name"
  by (induction hs) auto

lemma timestamp_name_lower:
  "toLowerCase (toLowerCase CACHE_TIMESTAMP_HEADER) = toLowerCase CACHE_TIMESTAMP_HEADER"
  by code_simp

lemma getCacheTimestamp_addTimestamp: "getCacheTimestamp (addTimestamp t r) = Some t"
  by (simp add: getCacheTimestamp_def addTimestamp_def headers_set_def getHeader_filtered
      timestamp_name_lower toString_nonempty parseInt_toString)

lemma addTimestamp_payload:
  "status (addTimestamp t r) = status r \<and> statusText (addTimestamp t r) = statusText r \<and>
   body (addTimestamp t r) = body r \<and> ok (addTimestamp t r) = ok r"
  by (simp add: addTimestamp_def ok_def)

lemma isFresh_addTimestamp: "isFresh n (addTimestamp t r) ttl \<longleftrightarrow> n - t < ttl * 1000"
  by (simp add: isFresh_def getCacheTimestamp_addTimestamp)

subsection \<open>The strategies\<close>

lemma getTTL_positive: "getTTL hs d = Some ttl \<Longrightarrow> ttl > 0"
  by (auto simp: getTTL_def split: option.splits if_splits)

lemma handled_dispatch:
  assumes "handledRead P cfg rq"
    and "getTTL (req_headers rq) (defaultTTLSeconds cfg) = Some ttl"
  shows "handleRequest P cfg E st rq =
    (let n = fst (periodicCleanup (fetchCounter st));
         staleTTL = getStaleTTL (req_headers rq) (defaultStaleTTLSeconds cfg);
         strategy = getStrategy (req_headers rq) (defaultStrategy cfg)
     in if strategy = ''cache-first''
        then cacheFirst P cfg E (cache st) n (sweepDue st) rq ttl staleTTL
        else if strategy = ''network-first''
        then networkFirst P cfg E (cache st) n (sweepDue st) rq ttl staleTTL
        else if strategy = ''stale-while-revalidate''
        then staleWhileRevalidate P cfg E (cache st) n (sweepDue st) rq ttl staleTTL
        else notHandled (cache st) n (sweepDue st))"
proof -
  have im: "\<not> isMutation ''GET''"
    by (simp add: isMutation_def)
  obtain u where u: "URL P (req_url rq) = Some u"
    and own: "self_origin P = None \<or> self_origin P = Some (origin u)"
    using assms(1) by (auto simp: handledRead_def split: option.splits)
  have "\<exists>b. matchesScope P (req_url rq) (scope cfg) (defaultTTLSeconds cfg) = Inr b"
    using u by (simp add: matchesScope_def)
  then obtain b where ms: "matchesScope P (req_url rq) (scope cfg) (defaultTTLSeconds cfg) = Inr b"
    by blast
  have sc: "b \<or> getHeader (req_headers rq) CACHE_TTL_HEADER \<noteq> None"
    using assms(1) ms by (auto simp: handledRead_def)
  show ?thesis
    using assms im u own ms sc getTTL_positive [OF assms(2)]
    by (auto simp: handleRequest_def handledRead_def Let_def sweepDue_def)
qed

lemma cache_delete_present:
  "cache_match c k = Some r \<Longrightarrow> cache_delete P c k False = (True, AList.delete k c)"
  by (simp add: cache_delete_def cache_match_def)

lemma cache_match_delete: "cache_match (AList.delete k c) k' = (if k' = k then None else cache_match c k')"
  by (simp add: cache_match_def delete_conv')

lemma cache_match_put: "cache_match (cache_put c k r) k' = (if k' = k then Some r else cache_match c k')"
  by (simp add: cache_match_def cache_put_def update_conv')

text \<open>
  Claim C2. For a request that reaches the network-first strategy, the network call comes
  before any cache lookup. A response with a 2xx status is stored under the request URL with
  the timestamp of that moment and returned; any other response is returned and nothing is
  stored. When the call throws \<open>e\<close>: a cached entry that is retention-expired is deleted and
  \<open>e\<close> is the outcome; otherwise a cached entry that is fresh or stale is returned and the
  cache stays as it is; with no entry, or an entry that is neither, \<open>e\<close> is the outcome.
\<close>

theorem network_first_strategy:
  assumes "handledRead P cfg rq"
    and "getStrategy (req_headers rq) (defaultStrategy cfg) = ''network-first''"
    and "getTTL (req_headers rq) (defaultTTLSeconds cfg) = Some ttl"
    and "getStaleTTL (req_headers rq) (defaultStaleTTLSeconds cfg) = staleTTL"
    and "T = handleRequest P cfg E st rq"
    and "k = req_url rq"
  shows "take 2 (events T) = [Open, Fetch k] \<and>
    (net E rq = Inr nr \<and> ok nr \<longrightarrow>
       result T = Resolved nr \<and>
       store T = cache_put (cache st) k (addTimestamp (later E) nr) \<and>
       cache_match (store T) k = Some (addTimestamp (later E) nr) \<and>
       getCacheTimestamp (addTimestamp (later E) nr) = Some (later E)) \<and>
    (net E rq = Inr nr \<and> \<not> ok nr \<longrightarrow> result T = Resolved nr \<and> store T = cache st) \<and>
    (net E rq = Inl e \<and> cache_match (cache st) k = Some r \<and>
     isOlderThanMaxAge (later E) r (maxCacheAgeSeconds cfg) \<longrightarrow>
       result T = Rejected e \<and> store T = AList.delete k (cache st) \<and>
       cache_match (store T) k = None) \<and>
    (net E rq = Inl e \<and> cache_match (cache st) k = Some r \<and>
     \<not> isOlderThanMaxAge (later E) r (maxCacheAgeSeconds cfg) \<and>
     (isFresh (later E) r ttl \<or> isStale (later E) r ttl staleTTL) \<longrightarrow>
       result T = Resolved r \<and> store T = cache st) \<and>
    (net E rq = Inl e \<and>
     (cache_match (cache st) k = None \<or>
      (cache_match (cache st) k = Some r \<and>
       \<not> isOlderThanMaxAge (later E) r (maxCacheAgeSeconds cfg) \<and>
       \<not> isFresh (later E) r ttl \<and> \<not> isStale (later E) r ttl staleTTL)) \<longrightarrow>
       result T = Rejected e \<and> store T = cache st)"
proof -
  have T: "T = networkFirst P cfg E (cache st) (fst (periodicCleanup (fetchCounter st)))
      (sweepDue st) rq ttl staleTTL"
    using handled_dispatch [OF assms(1,3)] assms(2,4,5) by (simp add: Let_def)
  show ?thesis
    unfolding T assms(6)
    by (auto simp: networkFirst_def fetchAndStore_def storeIfOk_def Let_def cache_delete_present
        cache_match_delete cache_match_put getCacheTimestamp_addTimestamp
        split: sum.splits option.splits)
qed


theorem network_first_strategy_witness:
  "handledRead plain defaults (strategyRequest ''https://example.com/api/users'' ''network-first'' ''3600'') \<and>
   getStrategy (req_headers (strategyRequest ''https://example.com/api/users'' ''network-first'' ''3600''))
     (defaultStrategy defaults) = ''network-first'' \<and>
   getTTL (req_headers (strategyRequest ''https://example.com/api/users'' ''network-first'' ''3600''))
     (defaultTTLSeconds defaults) = Some 300 \<and>
   ok (bare 200 ''new'') \<and>
   result (handleRequest plain defaults (serving 0 5000 (bare 200 ''new'')) (holding [] 5)
     (strategyRequest ''https://example.com/api/users'' ''network-first'' ''3600'')) = Resolved (bare 200 ''new'') \<and>
   cache_match (store (handleRequest plain defaults (serving 0 5000 (bare 200 ''new'')) (holding [] 5)
     (strategyRequest ''https://example.com/api/users'' ''network-first'' ''3600'')))
       ''https://example.com/api/users'' = Some (addTimestamp 5000 (bare 200 ''new'')) \<and>
   isStale 400000 (stamped ''1000'') 300 (Some 3600) \<and>
   \<not> isOlderThanMaxAge 400000 (stamped ''1000'') (maxCacheAgeSeconds defaults) \<and>
   result (handleRequest plain defaults (failing 0 400000 ''offline'')
     (holding [(''https://example.com/api/users'', stamped ''1000'')] 5)
     (strategyRequest ''https://example.com/api/users'' ''network-first'' ''3600'')) = Resolved (stamped ''1000'') \<and>
   isOlderThanMaxAge 8000000 (stamped ''1000'') (maxCacheAgeSeconds defaults) \<and>
   result (handleRequest plain defaults (failing 0 8000000 ''offline'')
     (holding [(''https://example.com/api/users'', stamped ''1000'')] 5)
     (strategyRequest ''https://example.com/api/users'' ''network-first'' ''3600'')) = Rejected (Thrown ''offline'') \<and>
   store (handleRequest plain defaults (failing 0 8000000 ''offline'')
     (holding [(''https://example.com/api/users'', stamped ''1000'')] 5)
     (strategyRequest ''https://example.com/api/users'' ''network-first'' ''3600'')) = [] \<and>
   result (handleRequest plain defaults (failing 0 0 ''offline'') (holding [] 5)
     (strategyRequest ''https://example.com/api/users'' ''network-first'' ''3600'')) = Rejected (Thrown ''offline'')"
proof -
  let ?u = "''https://example.com/api/users''"
  let ?rq = "strategyRequest ?u ''network-first'' ''3600''"
  let ?c = "[(?u, stamped ''1000'')]"
  have h: "handledRead plain defaults ?rq"
    "getStrategy (req_headers ?rq) (defaultStrategy defaults) = ''network-first''"
    "getTTL (req_headers ?rq) (defaultTTLSeconds defaults) = Some 300"
    "getStaleTTL (req_headers ?rq) (defaultStaleTTLSeconds defaults) = Some 3600"
    by code_simp+
  have f: "ok (bare 200 ''new'')"
    "isStale 400000 (stamped ''1000'') 300 (Some 3600)"
    "\<not> isOlderThanMaxAge 400000 (stamped ''1000'') (maxCacheAgeSeconds defaults)"
    "isOlderThanMaxAge 8000000 (stamped ''1000'') (maxCacheAgeSeconds defaults)"
    by code_simp+
  have e: "net (serving a b x) y = Inr x" "net (failing a b m) y = Inl (Thrown m)"
    "later (serving a b x) = b" "later (failing a b m) = b" for a b x y m
    by (simp_all add: serving_def failing_def)
  have s: "cache (holding c n) = c" "req_url ?rq = ?u" for c n
    by (simp_all add: holding_def strategyRequest_def)
  have m: "cache_match ?c ?u = Some (stamped ''1000'')" "cache_match [] ?u = None"
    by (simp_all add: cache_match_def)
  note nf = network_first_strategy [OF h refl refl]
  have a: "result (handleRequest plain defaults (serving 0 5000 (bare 200 ''new'')) (holding [] 5) ?rq)
        = Resolved (bare 200 ''new'') \<and>
      cache_match (store (handleRequest plain defaults (serving 0 5000 (bare 200 ''new'')) (holding [] 5) ?rq)) ?u
        = Some (addTimestamp 5000 (bare 200 ''new''))"
    using nf [of "serving 0 5000 (bare 200 ''new'')" "holding [] 5" "bare 200 ''new''"] f
    by (simp add: e s m cache_match_put)
  have b: "result (handleRequest plain defaults (failing 0 400000 ''offline'') (holding ?c 5) ?rq)
        = Resolved (stamped ''1000'')"
    using nf [of "failing 0 400000 ''offline''" "holding ?c 5" _ "Thrown ''offline''" "stamped ''1000''"]
      f by (simp add: e s m cache_match_put cache_match_delete)
  have c: "result (handleRequest plain defaults (failing 0 8000000 ''offline'') (holding ?c 5) ?rq)
        = Rejected (Thrown ''offline'') \<and>
      store (handleRequest plain defaults (failing 0 8000000 ''offline'') (holding ?c 5) ?rq) = []"
    using nf [of "failing 0 8000000 ''offline''" "holding ?c 5" _ "Thrown ''offline''" "stamped ''1000''"]
      f by (simp add: e s m cache_match_put cache_match_delete)
  have d: "result (handleRequest plain defaults (failing 0 0 ''offline'') (holding [] 5) ?rq)
        = Rejected (Thrown ''offline'')"
    using nf [of "failing 0 0 ''offline''" "holding [] 5" _ "Thrown ''offline''"]
    by (simp add: e s m)
  show ?thesis
    using h f a b c d by blast
qed

text \<open>
  Claim C3, as stated, fails for an entry that is fresh by its TTL but older than the
  retention bound: with a TTL directive of 8000 seconds and the default bound of 7200
  seconds, an entry of age 7500 seconds is fresh, yet the handler deletes it, calls the
  network and returns the network response.
\<close>

theorem swr_fresh_counterexample:
  "isFresh 7500000 (stamped ''0'') 8000 \<and>
   getTTL [(''X-SW-Cache-Strategy'', ''stale-while-revalidate''), (''X-SW-Cache-TTL-Seconds'', ''8000'')]
     (defaultTTLSeconds defaults) = Some 8000 \<and>
   result (handleRequest plain defaults (serving 7500000 7500000 (bare 200 ''new''))
     (holding [(''https://example.com/api/users'', stamped ''0'')] 5)
     (getRequest ''https://example.com/api/users''
        [(''X-SW-Cache-Strategy'', ''stale-while-revalidate''), (''X-SW-Cache-TTL-Seconds'', ''8000'')]))
     = Resolved (bare 200 ''new'') \<and>
   events (handleRequest plain defaults (serving 7500000 7500000 (bare 200 ''new''))
     (holding [(''https://example.com/api/users'', stamped ''0'')] 5)
     (getRequest ''https://example.com/api/users''
        [(''X-SW-Cache-Strategy'', ''stale-while-revalidate''), (''X-SW-Cache-TTL-Seconds'', ''8000'')]))
     = [Open, Match ''https://example.com/api/users'', Delete ''https://example.com/api/users'',
        Fetch ''https://example.com/api/users'',
        Put ''https://example.com/api/users'' (addTimestamp 7500000 (bare 200 ''new''))]"
proof -
  let ?u = "''https://example.com/api/users''"
  let ?hs = "[(''X-SW-Cache-Strategy'', ''stale-while-revalidate''), (''X-SW-Cache-TTL-Seconds'', ''8000'')]"
  let ?rq = "getRequest ?u ?hs"
  have h: "handledRead plain defaults ?rq"
    "getTTL (req_headers ?rq) (defaultTTLSeconds defaults) = Some 8000"
    "getStrategy (req_headers ?rq) (defaultStrategy defaults) = ''stale-while-revalidate''"
    by code_simp+
  have f: "isFresh 7500000 (stamped ''0'') 8000"
    "isOlderThanMaxAge 7500000 (stamped ''0'') (maxCacheAgeSeconds defaults)"
    "ok (bare 200 ''new'')"
    by code_simp+
  have e: "net (serving 7500000 7500000 (bare 200 ''new'')) ?rq = Inr (bare 200 ''new'')"
    "later (serving 7500000 7500000 (bare 200 ''new'')) = 7500000"
    "now (serving 7500000 7500000 (bare 200 ''new'')) = 7500000"
    "cache (holding [(?u, stamped ''0'')] 5) = [(?u, stamped ''0'')]"
    "req_url ?rq = ?u" "req_headers ?rq = ?hs"
    "cache_match [(?u, stamped ''0'')] ?u = Some (stamped ''0'')"
    by (simp_all add: serving_def holding_def getRequest_def cache_match_def)
  have "handleRequest plain defaults (serving 7500000 7500000 (bare 200 ''new''))
      (holding [(?u, stamped ''0'')] 5) ?rq =
      \<lparr>result = Resolved (bare 200 ''new''),
       store = cache_put (AList.delete ?u [(?u, stamped ''0'')]) ?u (addTimestamp 7500000 (bare 200 ''new'')),
       counter = fst (periodicCleanup 5),
       events = [Open, Match ?u, Delete ?u, Fetch ?u, Put ?u (addTimestamp 7500000 (bare 200 ''new''))],
       spawned = sweepDue (holding [(?u, stamped ''0'')] 5)\<rparr>"
    unfolding handled_dispatch [OF h(1,2)]
    using h(3) f
    by (simp add: e Let_def staleWhileRevalidate_def fetchAndStore_def storeIfOk_def
        cache_delete_present holding_def)
  then show ?thesis
    using f h(2) by (simp add: e)
qed


text \<open>
  Claim C3, amended. For a request that reaches stale-while-revalidate, with \<open>k\<close> its URL:
  an entry that is fresh and not retention-expired is returned with no network call and no
  background task, and the cache stays as it is; an entry that is stale and not
  retention-expired is returned whatever the network does, the cache stays as it is in the
  turn, the fetch is started and only its continuation is left as a task, which overwrites
  the entry with a response stamped at the time it runs when the status is 2xx and does
  nothing on any other outcome; with no entry, or an entry that is neither fresh nor stale,
  the fetch is part of the turn: a 2xx response is stored with a fresh timestamp and
  returned, another response is returned and the cache stays as it is, an error is the
  outcome and the cache stays as it is; a retention-expired entry is first deleted, also
  when it is fresh by its TTL, and then the same fetch follows: the store afterwards is the
  old one without the entry, plus the stamped 2xx response if there is one, so after an
  error or a response that is not 2xx the URL has no entry.
\<close>

theorem stale_while_revalidate_strategy:
  assumes "handledRead P cfg rq"
    and "getStrategy (req_headers rq) (defaultStrategy cfg) = ''stale-while-revalidate''"
    and "getTTL (req_headers rq) (defaultTTLSeconds cfg) = Some ttl"
    and "getStaleTTL (req_headers rq) (defaultStaleTTLSeconds cfg) = staleTTL"
    and "T = handleRequest P cfg E st rq"
    and "k = req_url rq"
  shows
   "(cache_match (cache st) k = Some r \<and>
     \<not> isOlderThanMaxAge (now E) r (maxCacheAgeSeconds cfg) \<and> isFresh (now E) r ttl \<longrightarrow>
       result T = Resolved r \<and> store T = cache st \<and> events T = [Open, Match k] \<and>
       spawned T = sweepDue st) \<and>
    (cache_match (cache st) k = Some r \<and>
     \<not> isOlderThanMaxAge (now E) r (maxCacheAgeSeconds cfg) \<and> isStale (now E) r ttl staleTTL \<longrightarrow>
       result T = Resolved r \<and> store T = cache st \<and> events T = [Open, Match k, Fetch k] \<and>
       spawned T = sweepDue st @ [Revalidate k (net E rq)] \<and>
       (net E rq = Inr nr \<and> ok nr \<longrightarrow>
          runTask P cfg t (Revalidate k (net E rq)) c' = cache_put c' k (addTimestamp t nr) \<and>
          cache_match (runTask P cfg t (Revalidate k (net E rq)) c') k = Some (addTimestamp t nr) \<and>
          getCacheTimestamp (addTimestamp t nr) = Some t) \<and>
       (net E rq = Inr nr \<and> \<not> ok nr \<longrightarrow> runTask P cfg t (Revalidate k (net E rq)) c' = c') \<and>
       (net E rq = Inl e \<longrightarrow> runTask P cfg t (Revalidate k (net E rq)) c' = c')) \<and>
    (cache_match (cache st) k = None \<or>
     (cache_match (cache st) k = Some r \<and>
      \<not> isOlderThanMaxAge (now E) r (maxCacheAgeSeconds cfg) \<and>
      \<not> isFresh (now E) r ttl \<and> \<not> isStale (now E) r ttl staleTTL) \<longrightarrow>
       spawned T = sweepDue st \<and>
       (net E rq = Inr nr \<and> ok nr \<longrightarrow>
          result T = Resolved nr \<and>
          store T = cache_put (cache st) k (addTimestamp (later E) nr) \<and>
          cache_match (store T) k = Some (addTimestamp (later E) nr) \<and>
          getCacheTimestamp (addTimestamp (later E) nr) = Some (later E) \<and>
          events T = [Open, Match k, Fetch k, Put k (addTimestamp (later E) nr)]) \<and>
       (net E rq = Inr nr \<and> \<not> ok nr \<longrightarrow>
          result T = Resolved nr \<and> store T = cache st \<and>
          events T = [Open, Match k, Fetch k]) \<and>
       (net E rq = Inl e \<longrightarrow>
          result T = Rejected e \<and> store T = cache st \<and>
          events T = [Open, Match k, Fetch k])) \<and>
    (cache_match (cache st) k = Some r \<and>
     isOlderThanMaxAge (now E) r (maxCacheAgeSeconds cfg) \<longrightarrow>
       spawned T = sweepDue st \<and>
       (net E rq = Inr nr \<and> ok nr \<longrightarrow>
          result T = Resolved nr \<and>
          store T = cache_put (AList.delete k (cache st)) k (addTimestamp (later E) nr) \<and>
          cache_match (store T) k = Some (addTimestamp (later E) nr) \<and>
          getCacheTimestamp (addTimestamp (later E) nr) = Some (later E) \<and>
          events T = [Open, Match k, Delete k, Fetch k, Put k (addTimestamp (later E) nr)]) \<and>
       (net E rq = Inr nr \<and> \<not> ok nr \<longrightarrow>
          result T = Resolved nr \<and> store T = AList.delete k (cache st) \<and>
          cache_match (store T) k = None \<and>
          events T = [Open, Match k, Delete k, Fetch k]) \<and>
       (net E rq = Inl e \<longrightarrow>
          result T = Rejected e \<and> store T = AList.delete k (cache st) \<and>
          cache_match (store T) k = None \<and>
          events T = [Open, Match k, Delete k, Fetch k]))"
proof -
  have T: "T = staleWhileRevalidate P cfg E (cache st) (fst (periodicCleanup (fetchCounter st)))
      (sweepDue st) rq ttl staleTTL"
    using handled_dispatch [OF assms(1,3)] assms(2,4,5) by (simp add: Let_def)
  have fresh_not_stale: "isFresh (now E) r ttl \<Longrightarrow> \<not> isStale (now E) r ttl staleTTL"
    by (auto simp: isFresh_def isStale_def split: option.splits)
  show ?thesis
    unfolding T assms(6)
    using fresh_not_stale
    by (auto simp: staleWhileRevalidate_def fetchAndStore_def storeIfOk_def Let_def
        cache_delete_present cache_match_delete cache_match_put getCacheTimestamp_addTimestamp
        runTask_def revalidate_def
        split: sum.splits option.splits)
qed


theorem stale_while_revalidate_strategy_witness:
  "handledRead plain defaults
     (strategyRequest ''https://example.com/api/users'' ''stale-while-revalidate'' ''3600'') \<and>
   isFresh 2000 (stamped ''1000'') 300 \<and>
   result (handleRequest plain defaults (failing 2000 2000 ''offline'')
     (holding [(''https://example.com/api/users'', stamped ''1000'')] 5)
     (strategyRequest ''https://example.com/api/users'' ''stale-while-revalidate'' ''3600''))
     = Resolved (stamped ''1000'') \<and>
   events (handleRequest plain defaults (failing 2000 2000 ''offline'')
     (holding [(''https://example.com/api/users'', stamped ''1000'')] 5)
     (strategyRequest ''https://example.com/api/users'' ''stale-while-revalidate'' ''3600''))
     = [Open, Match ''https://example.com/api/users''] \<and>
   isStale 400000 (stamped ''1000'') 300 (Some 3600) \<and>
   result (handleRequest plain defaults (serving 400000 400500 (bare 200 ''new''))
     (holding [(''https://example.com/api/users'', stamped ''1000'')] 5)
     (strategyRequest ''https://example.com/api/users'' ''stale-while-revalidate'' ''3600''))
     = Resolved (stamped ''1000'') \<and>
   spawned (handleRequest plain defaults (serving 400000 400500 (bare 200 ''new''))
     (holding [(''https://example.com/api/users'', stamped ''1000'')] 5)
     (strategyRequest ''https://example.com/api/users'' ''stale-while-revalidate'' ''3600''))
     = [Revalidate ''https://example.com/api/users'' (Inr (bare 200 ''new''))] \<and>
   cache_match (runTask plain defaults 400500
       (Revalidate ''https://example.com/api/users'' (Inr (bare 200 ''new'')))
       [(''https://example.com/api/users'', stamped ''1000'')]) ''https://example.com/api/users''
     = Some (addTimestamp 400500 (bare 200 ''new'')) \<and>
   result (handleRequest plain defaults (failing 0 0 ''offline'') (holding [] 5)
     (strategyRequest ''https://example.com/api/users'' ''stale-while-revalidate'' ''3600''))
     = Rejected (Thrown ''offline'') \<and>
   isOlderThanMaxAge 8000000 (stamped ''1000'') (maxCacheAgeSeconds defaults) \<and>
   result (handleRequest plain defaults (failing 8000000 8000000 ''offline'')
     (holding [(''https://example.com/api/users'', stamped ''1000'')] 5)
     (strategyRequest ''https://example.com/api/users'' ''stale-while-revalidate'' ''3600''))
     = Rejected (Thrown ''offline'') \<and>
   store (handleRequest plain defaults (failing 8000000 8000000 ''offline'')
     (holding [(''https://example.com/api/users'', stamped ''1000'')] 5)
     (strategyRequest ''https://example.com/api/users'' ''stale-while-revalidate'' ''3600'')) = []"
proof -
  let ?u = "''https://example.com/api/users''"
  let ?rq = "strategyRequest ?u ''stale-while-revalidate'' ''3600''"
  let ?c = "[(?u, stamped ''1000'')]"
  have h: "handledRead plain defaults ?rq"
    "getStrategy (req_headers ?rq) (defaultStrategy defaults) = ''stale-while-revalidate''"
    "getTTL (req_headers ?rq) (defaultTTLSeconds defaults) = Some 300"
    "getStaleTTL (req_headers ?rq) (defaultStaleTTLSeconds defaults) = Some 3600"
    by code_simp+
  have f: "ok (bare 200 ''new'')"
    "isFresh 2000 (stamped ''1000'') 300"
    "\<not> isOlderThanMaxAge 2000 (stamped ''1000'') (maxCacheAgeSeconds defaults)"
    "isStale 400000 (stamped ''1000'') 300 (Some 3600)"
    "\<not> isOlderThanMaxAge 400000 (stamped ''1000'') (maxCacheAgeSeconds defaults)"
    "isOlderThanMaxAge 8000000 (stamped ''1000'') (maxCacheAgeSeconds defaults)"
    by code_simp+
  have e: "net (serving a b x) y = Inr x" "net (failing a b m) y = Inl (Thrown m)"
    "now (serving a b x) = a" "now (failing a b m) = a"
    "later (serving a b x) = b" "later (failing a b m) = b" for a b x y m
    by (simp_all add: serving_def failing_def)
  have s: "cache (holding c n) = c" "req_url ?rq = ?u" "sweepDue (holding c 5) = []" for c n
    by (simp_all add: holding_def strategyRequest_def sweepDue_def periodicCleanup_def)
  have m: "cache_match ?c ?u = Some (stamped ''1000'')" "cache_match [] ?u = None"
    by (simp_all add: cache_match_def)
  note swr = stale_while_revalidate_strategy [OF h refl refl]
  have a: "result (handleRequest plain defaults (failing 2000 2000 ''offline'') (holding ?c 5) ?rq)
        = Resolved (stamped ''1000'') \<and>
      events (handleRequest plain defaults (failing 2000 2000 ''offline'') (holding ?c 5) ?rq)
        = [Open, Match ?u]"
    using swr [where st = "holding ?c 5" and r = "stamped ''1000''"
        and E = "failing 2000 2000 ''offline''"] f
    by (simp add: e s m)
  have b: "result (handleRequest plain defaults (serving 400000 400500 (bare 200 ''new'')) (holding ?c 5) ?rq)
        = Resolved (stamped ''1000'') \<and>
      spawned (handleRequest plain defaults (serving 400000 400500 (bare 200 ''new'')) (holding ?c 5) ?rq)
        = [Revalidate ?u (Inr (bare 200 ''new''))] \<and>
      cache_match (runTask plain defaults 400500 (Revalidate ?u (Inr (bare 200 ''new''))) ?c) ?u
        = Some (addTimestamp 400500 (bare 200 ''new''))"
    using swr [where st = "holding ?c 5" and r = "stamped ''1000''"
        and E = "serving 400000 400500 (bare 200 ''new'')" and nr = "bare 200 ''new''"
        and t = 400500 and c' = ?c] f
    by (simp add: e s m cache_match_put)
  have c: "result (handleRequest plain defaults (failing 0 0 ''offline'') (holding [] 5) ?rq)
        = Rejected (Thrown ''offline'')"
    using swr [where st = "holding [] 5" and E = "failing 0 0 ''offline''"
        and e = "Thrown ''offline''"]
    by (simp add: e s m)
  have d: "result (handleRequest plain defaults (failing 8000000 8000000 ''offline'') (holding ?c 5) ?rq)
        = Rejected (Thrown ''offline'') \<and>
      store (handleRequest plain defaults (failing 8000000 8000000 ''offline'') (holding ?c 5) ?rq) = []"
    using swr [where st = "holding ?c 5" and r = "stamped ''1000''"
        and E = "failing 8000000 8000000 ''offline''" and e = "Thrown ''offline''"] f
    by (simp add: e s m)
  show ?thesis
    using h f a b c d by blast
qed

subsection \<open>What a turn may write\<close>

lemma map_of_filter_key:
  "map_of (filter (\<lambda>e. keep (fst e)) c) k = (if keep k then map_of c k else None)"
  by (induction c) auto

lemma cache_match_delete_by_pathname:
  "cache_match (snd (delete_by_pathname P c p)) k = cache_match c k \<or>
   cache_match (snd (delete_by_pathname P c p)) k = None"
proof -
  have "snd (delete_by_pathname P c p)
      = filter (\<lambda>e. (\<lambda>key. \<not> (case URL P key of None \<Rightarrow> False | Some u \<Rightarrow> pathname u = p)) (fst e)) c"
    by (simp add: delete_by_pathname_def hasPathname_def)
  then show ?thesis
    unfolding cache_match_def
    using map_of_filter_key
      [of "\<lambda>key. \<not> (case URL P key of None \<Rightarrow> False | Some u \<Rightarrow> pathname u = p)" c k]
    by (simp split: if_splits)
qed

lemma cache_delete_shape:
  "snd (cache_delete P c u b) = AList.delete u c \<or>
   (\<exists>p. snd (cache_delete P c u b) = snd (delete_by_pathname P c p)) \<or>
   snd (cache_delete P c u b) = c"
  by (simp add: cache_delete_def split: option.splits) blast

lemma cache_match_cache_delete:
  "cache_match (snd (cache_delete P c u b)) k = cache_match c k \<or>
   cache_match (snd (cache_delete P c u b)) k = None"
  using cache_delete_shape [of P c u b] cache_match_delete_by_pathname [of P c _ k]
    cache_match_delete [of u c k]
  by (elim disjE exE) (simp_all split: if_splits)

lemma cache_match_invalidateCache:
  "cache_match (invalidateCache P c urls) k = cache_match c k \<or>
   cache_match (invalidateCache P c urls) k = None"
proof (induction urls arbitrary: c)
  case Nil
  show ?case by simp
next
  case (Cons u urls)
  show ?case
    using Cons [of "snd (cache_delete P c u True)"] cache_match_cache_delete [of P c u True k]
    by auto
qed

lemma cache_match_cleanup_loop:
  "cache_match (cleanup_loop P t m ks c) k =
     (case cache_match c k of
        None \<Rightarrow> None
      | Some r \<Rightarrow> if k \<in> set ks \<and> isOlderThanMaxAge t r m then None else Some r)"
proof (induction ks arbitrary: c)
  case Nil
  show ?case by (simp split: option.splits)
next
  case (Cons a ks)
  show ?case
  proof (cases "cache_match c a")
    case None
    then show ?thesis using Cons [of c] by (auto split: option.splits)
  next
    case (Some r)
    show ?thesis
    proof (cases "isOlderThanMaxAge t r m")
      case True
      then show ?thesis
        using Some Cons [of "AList.delete a c"]
        by (auto simp: cache_delete_present cache_match_delete split: option.splits)
    next
      case False
      then show ?thesis using Some Cons [of c] by (auto split: option.splits)
    qed
  qed
qed

lemma cleanup_removes_expired:
  "cache_match (cleanupOldCacheEntries P t c m) k =
     (case cache_match c k of
        None \<Rightarrow> None
      | Some r \<Rightarrow> if isOlderThanMaxAge t r m then None else Some r)"
proof -
  have "cache_match c k = Some r \<Longrightarrow> k \<in> set (cache_keys c)" for r
    by (auto simp: cache_match_def cache_keys_def dest: map_of_SomeD intro: rev_image_eqI)
  then show ?thesis
    by (auto simp: cleanupOldCacheEntries_def cache_match_cleanup_loop split: option.splits)
qed

lemma handleRequest_shape:
  "handleRequest P cfg E st rq =
     \<lparr>result = settle (net E rq), store = clearCache (cache st), counter = fetchCounter st,
      events = [DeleteCache, Fetch (req_url rq)], spawned = []\<rparr> \<or>
   (\<exists>paths. handleRequest P cfg E st rq =
     \<lparr>result = settle (net E rq), store = invalidateCache P (cache st) paths,
      counter = fetchCounter st,
      events = (if paths = [] then [] else Open # map DeleteIgnoreSearch paths)
               @ [Fetch (req_url rq)],
      spawned = []\<rparr>) \<or>
   (\<exists>e n ts. ts \<in> {[], sweepDue st} \<and> handleRequest P cfg E st rq =
     \<lparr>result = Rejected e, store = cache st, counter = n, events = [], spawned = ts\<rparr>) \<or>
   (\<exists>n ts. ts \<in> {[], sweepDue st} \<and>
      handleRequest P cfg E st rq = notHandled (cache st) n ts) \<or>
   (\<exists>n ttl staleTTL. handleRequest P cfg E st rq =
      cacheFirst P cfg E (cache st) n (sweepDue st) rq ttl staleTTL) \<or>
   (\<exists>n ttl staleTTL. handleRequest P cfg E st rq =
      networkFirst P cfg E (cache st) n (sweepDue st) rq ttl staleTTL) \<or>
   (\<exists>n ttl staleTTL. handleRequest P cfg E st rq =
      staleWhileRevalidate P cfg E (cache st) n (sweepDue st) rq ttl staleTTL)"
proof (cases "getHeader (req_headers rq) CACHE_CLEAR_HEADER \<noteq> None")
  case True
  then show ?thesis by (simp add: handleRequest_def Let_def)
next
  case nclear: False
  show ?thesis
  proof (cases "getAllHeaders (req_headers rq) CACHE_INVALIDATE_HEADER \<noteq> []
              \<or> (inferInvalidation cfg \<and> isMutation (req_method rq))")
    case True
    then show ?thesis
      using nclear by (cases "pathsToInvalidate P cfg rq") (auto simp: handleRequest_def Let_def)
  next
    case ninv: False
    show ?thesis
    proof (cases "req_method rq \<noteq> ''GET'' \<or> URL P (req_url rq) = None")
      case True
      then have "handleRequest P cfg E st rq = notHandled (cache st) (fetchCounter st) []"
        using nclear ninv by (auto simp: handleRequest_def Let_def)
      then show ?thesis by blast
    next
      case get: False
      then obtain u where u: "URL P (req_url rq) = Some u" by auto
      have im: "\<not> isMutation ''GET''" by (simp add: isMutation_def)
      show ?thesis
      proof (cases "case self_origin P of None \<Rightarrow> False | Some own \<Rightarrow> origin u \<noteq> own")
        case True
        then have "handleRequest P cfg E st rq = notHandled (cache st) (fetchCounter st) []"
          using nclear ninv get u im by (simp add: handleRequest_def Let_def)
        then show ?thesis by blast
      next
        case same: False
        have "\<exists>b. matchesScope P (req_url rq) (scope cfg) (defaultTTLSeconds cfg) = Inr b"
          using u by (simp add: matchesScope_def)
        then obtain b where ms: "matchesScope P (req_url rq) (scope cfg) (defaultTTLSeconds cfg) = Inr b"
          by blast
        let ?n = "fst (periodicCleanup (fetchCounter st))"
        show ?thesis
        proof (cases "(\<not> b \<and> getHeader (req_headers rq) CACHE_TTL_HEADER = None)
                    \<or> getTTL (req_headers rq) (defaultTTLSeconds cfg) = None")
          case True
          then have "handleRequest P cfg E st rq = notHandled (cache st) ?n (sweepDue st)"
            using nclear ninv get u same ms im
            by (auto simp: handleRequest_def Let_def sweepDue_def)
          then show ?thesis by blast
        next
          case False
          then obtain ttl where ttl: "getTTL (req_headers rq) (defaultTTLSeconds cfg) = Some ttl"
            by auto
          let ?s = "getStrategy (req_headers rq) (defaultStrategy cfg)"
          let ?stale = "getStaleTTL (req_headers rq) (defaultStaleTTLSeconds cfg)"
          have eq: "handleRequest P cfg E st rq =
              (if ?s = ''cache-first''
               then cacheFirst P cfg E (cache st) ?n (sweepDue st) rq ttl ?stale
               else if ?s = ''network-first''
               then networkFirst P cfg E (cache st) ?n (sweepDue st) rq ttl ?stale
               else if ?s = ''stale-while-revalidate''
               then staleWhileRevalidate P cfg E (cache st) ?n (sweepDue st) rq ttl ?stale
               else notHandled (cache st) ?n (sweepDue st))"
            using nclear ninv get u same ms False ttl im getTTL_positive [OF ttl]
            by (auto simp: handleRequest_def Let_def sweepDue_def)
          consider "?s = ''cache-first''" | "?s = ''network-first''"
            | "?s = ''stale-while-revalidate''"
            | "?s \<noteq> ''cache-first'' \<and> ?s \<noteq> ''network-first'' \<and> ?s \<noteq> ''stale-while-revalidate''"
            by blast
          then show ?thesis
          proof cases
            case 1
            then have "handleRequest P cfg E st rq =
                cacheFirst P cfg E (cache st) ?n (sweepDue st) rq ttl ?stale"
              using eq by simp
            then show ?thesis by blast
          next
            case 2
            then have "handleRequest P cfg E st rq =
                networkFirst P cfg E (cache st) ?n (sweepDue st) rq ttl ?stale"
              using eq by simp
            then show ?thesis by blast
          next
            case 3
            then have "handleRequest P cfg E st rq =
                staleWhileRevalidate P cfg E (cache st) ?n (sweepDue st) rq ttl ?stale"
              using eq by simp
            then show ?thesis by blast
          next
            case 4
            then have "handleRequest P cfg E st rq = notHandled (cache st) ?n (sweepDue st)"
              using eq by simp
            then show ?thesis by blast
          qed
        qed
      qed
    qed
  qed
qed


lemma cacheFirst_writes:
  "(Put k r \<in> set (events (cacheFirst P cfg E c n ts rq ttl staleTTL)) \<longrightarrow>
      k = req_url rq \<and> (\<exists>nr. net E rq = Inr nr \<and> ok nr \<and> r = addTimestamp (later E) nr)) \<and>
   (cache_match (store (cacheFirst P cfg E c n ts rq ttl staleTTL)) k = cache_match c k \<or>
    cache_match (store (cacheFirst P cfg E c n ts rq ttl staleTTL)) k = None \<or>
    (\<exists>nr. net E rq = Inr nr \<and> ok nr \<and> k = req_url rq \<and>
       cache_match (store (cacheFirst P cfg E c n ts rq ttl staleTTL)) k
         = Some (addTimestamp (later E) nr))) \<and>
   spawned (cacheFirst P cfg E c n ts rq ttl staleTTL) = ts"
  by (auto simp: cacheFirst_def fetchAndStore_def storeIfOk_def Let_def cache_delete_present
      cache_match_delete cache_match_put split: sum.splits option.splits if_splits)

lemma networkFirst_writes:
  "(Put k r \<in> set (events (networkFirst P cfg E c n ts rq ttl staleTTL)) \<longrightarrow>
      k = req_url rq \<and> (\<exists>nr. net E rq = Inr nr \<and> ok nr \<and> r = addTimestamp (later E) nr)) \<and>
   (cache_match (store (networkFirst P cfg E c n ts rq ttl staleTTL)) k = cache_match c k \<or>
    cache_match (store (networkFirst P cfg E c n ts rq ttl staleTTL)) k = None \<or>
    (\<exists>nr. net E rq = Inr nr \<and> ok nr \<and> k = req_url rq \<and>
       cache_match (store (networkFirst P cfg E c n ts rq ttl staleTTL)) k
         = Some (addTimestamp (later E) nr))) \<and>
   spawned (networkFirst P cfg E c n ts rq ttl staleTTL) = ts"
  by (auto simp: networkFirst_def fetchAndStore_def storeIfOk_def Let_def cache_delete_present
      cache_match_delete cache_match_put split: sum.splits option.splits if_splits)

lemma staleWhileRevalidate_writes:
  "(Put k r \<in> set (events (staleWhileRevalidate P cfg E c n ts rq ttl staleTTL)) \<longrightarrow>
      k = req_url rq \<and> (\<exists>nr. net E rq = Inr nr \<and> ok nr \<and> r = addTimestamp (later E) nr)) \<and>
   (cache_match (store (staleWhileRevalidate P cfg E c n ts rq ttl staleTTL)) k = cache_match c k \<or>
    cache_match (store (staleWhileRevalidate P cfg E c n ts rq ttl staleTTL)) k = None \<or>
    (\<exists>nr. net E rq = Inr nr \<and> ok nr \<and> k = req_url rq \<and>
       cache_match (store (staleWhileRevalidate P cfg E c n ts rq ttl staleTTL)) k
         = Some (addTimestamp (later E) nr))) \<and>
   (spawned (staleWhileRevalidate P cfg E c n ts rq ttl staleTTL) = ts \<or>
    spawned (staleWhileRevalidate P cfg E c n ts rq ttl staleTTL)
      = ts @ [Revalidate (req_url rq) (net E rq)])"
  by (auto simp: staleWhileRevalidate_def fetchAndStore_def storeIfOk_def Let_def
      cache_delete_present cache_match_delete cache_match_put
      split: sum.splits option.splits if_splits)

lemma fst_storeIfOk:
  "fst (storeIfOk t c k nr) = (if ok nr then cache_put c k (addTimestamp t nr) else c)"
  by (simp add: storeIfOk_def)

lemma runTask_writes:
  "tk = Sweep \<or> tk = Revalidate u (net E rq) \<Longrightarrow>
   cache_match (runTask P cfg t tk c) k = cache_match c k \<or>
   cache_match (runTask P cfg t tk c) k = None \<or>
   (\<exists>nr. net E rq = Inr nr \<and> ok nr \<and> k = u \<and>
      cache_match (runTask P cfg t tk c) k = Some (addTimestamp t nr))"
  by (auto simp: runTask_def revalidate_def fst_storeIfOk cleanup_removes_expired cache_match_put
      split: sum.splits option.splits if_splits)

lemma handleRequest_writes:
  "(Put k r \<in> set (events (handleRequest P cfg E st rq)) \<longrightarrow>
      k = req_url rq \<and> (\<exists>nr. net E rq = Inr nr \<and> ok nr \<and> r = addTimestamp (later E) nr)) \<and>
   (cache_match (store (handleRequest P cfg E st rq)) k = cache_match (cache st) k \<or>
    cache_match (store (handleRequest P cfg E st rq)) k = None \<or>
    (\<exists>nr. net E rq = Inr nr \<and> ok nr \<and> k = req_url rq \<and>
       cache_match (store (handleRequest P cfg E st rq)) k = Some (addTimestamp (later E) nr))) \<and>
   (tk \<in> set (spawned (handleRequest P cfg E st rq)) \<longrightarrow>
      tk = Sweep \<or> tk = Revalidate (req_url rq) (net E rq))"
proof -
  have sd: "tk \<in> set (sweepDue st) \<Longrightarrow> tk = Sweep"
    by (simp add: sweepDue_def split: if_splits)
  have nf: "Put k r \<notin> set (if paths = [] then [] else Open # map DeleteIgnoreSearch paths)" for paths
    by auto
  from handleRequest_shape [of P cfg E st rq] show ?thesis
  proof (elim disjE exE conjE)
    assume "handleRequest P cfg E st rq =
     \<lparr>result = settle (net E rq), store = clearCache (cache st), counter = fetchCounter st,
      events = [DeleteCache, Fetch (req_url rq)], spawned = []\<rparr>"
    then show ?thesis by (simp add: clearCache_def cache_match_def)
  next
    fix paths
    assume "handleRequest P cfg E st rq =
     \<lparr>result = settle (net E rq), store = invalidateCache P (cache st) paths,
      counter = fetchCounter st,
      events = (if paths = [] then [] else Open # map DeleteIgnoreSearch paths)
               @ [Fetch (req_url rq)],
      spawned = []\<rparr>"
    then show ?thesis
      using cache_match_invalidateCache [of P "cache st" paths k] nf [of paths] by auto
  next
    fix e n ts
    assume "ts \<in> {[], sweepDue st}" "handleRequest P cfg E st rq =
     \<lparr>result = Rejected e, store = cache st, counter = n, events = [], spawned = ts\<rparr>"
    then show ?thesis using sd by auto
  next
    fix n ts
    assume "ts \<in> {[], sweepDue st}"
      "handleRequest P cfg E st rq = notHandled (cache st) n ts"
    then show ?thesis using sd by (auto simp: notHandled_def)
  next
    fix n ttl staleTTL
    assume "handleRequest P cfg E st rq =
      cacheFirst P cfg E (cache st) n (sweepDue st) rq ttl staleTTL"
    then show ?thesis
      using cacheFirst_writes [of k r P cfg E "cache st" n "sweepDue st" rq ttl staleTTL] sd
      by auto
  next
    fix n ttl staleTTL
    assume "handleRequest P cfg E st rq =
      networkFirst P cfg E (cache st) n (sweepDue st) rq ttl staleTTL"
    then show ?thesis
      using networkFirst_writes [of k r P cfg E "cache st" n "sweepDue st" rq ttl staleTTL] sd
      by auto
  next
    fix n ttl staleTTL
    assume "handleRequest P cfg E st rq =
      staleWhileRevalidate P cfg E (cache st) n (sweepDue st) rq ttl staleTTL"
    then show ?thesis
      using staleWhileRevalidate_writes [of k r P cfg E "cache st" n "sweepDue st" rq ttl staleTTL] sd
      by auto
  qed
qed


text \<open>
  Claim C4. For every request and every path of the handler: a response put into the
  cache is the network response of this turn, its status is 2xx, and it carries a timestamp
  header set at that moment; after the turn every key holds its old entry, no entry, or
  (for the request URL) such a complete stamped response, so no entry is changed in part.
  The same holds for each task the turn started, the sweep and the background
  revalidation, whenever it runs.
\<close>

theorem only_ok_responses_written:
  "(Put k r \<in> set (events (handleRequest P cfg E st rq)) \<longrightarrow>
      k = req_url rq \<and> ok r \<and> getCacheTimestamp r = Some (later E) \<and>
      (\<exists>nr. net E rq = Inr nr \<and> ok nr \<and> r = addTimestamp (later E) nr)) \<and>
   (cache_match (store (handleRequest P cfg E st rq)) k = cache_match (cache st) k \<or>
    cache_match (store (handleRequest P cfg E st rq)) k = None \<or>
    (\<exists>nr. net E rq = Inr nr \<and> ok nr \<and> k = req_url rq \<and>
       cache_match (store (handleRequest P cfg E st rq)) k = Some (addTimestamp (later E) nr))) \<and>
   (tk \<in> set (spawned (handleRequest P cfg E st rq)) \<longrightarrow>
      cache_match (runTask P cfg t tk c') k = cache_match c' k \<or>
      cache_match (runTask P cfg t tk c') k = None \<or>
      (\<exists>nr. net E rq = Inr nr \<and> ok nr \<and> k = req_url rq \<and>
         cache_match (runTask P cfg t tk c') k = Some (addTimestamp t nr)))"
proof (intro conjI impI)
  assume "Put k r \<in> set (events (handleRequest P cfg E st rq))"
  then have "k = req_url rq \<and> (\<exists>nr. net E rq = Inr nr \<and> ok nr \<and> r = addTimestamp (later E) nr)"
    using handleRequest_writes [of k r P cfg E st rq] by blast
  then show "k = req_url rq" and "ok r" and "getCacheTimestamp r = Some (later E)"
    and "\<exists>nr. net E rq = Inr nr \<and> ok nr \<and> r = addTimestamp (later E) nr"
    by (auto simp: getCacheTimestamp_addTimestamp addTimestamp_payload)
next
  show "cache_match (store (handleRequest P cfg E st rq)) k = cache_match (cache st) k \<or>
    cache_match (store (handleRequest P cfg E st rq)) k = None \<or>
    (\<exists>nr. net E rq = Inr nr \<and> ok nr \<and> k = req_url rq \<and>
       cache_match (store (handleRequest P cfg E st rq)) k = Some (addTimestamp (later E) nr))"
    using handleRequest_writes [of k r P cfg E st rq] by blast
next
  assume "tk \<in> set (spawned (handleRequest P cfg E st rq))"
  then have "tk = Sweep \<or> tk = Revalidate (req_url rq) (net E rq)"
    using handleRequest_writes [of k r P cfg E st rq tk] by blast
  then show "cache_match (runTask P cfg t tk c') k = cache_match c' k \<or>
      cache_match (runTask P cfg t tk c') k = None \<or>
      (\<exists>nr. net E rq = Inr nr \<and> ok nr \<and> k = req_url rq \<and>
         cache_match (runTask P cfg t tk c') k = Some (addTimestamp t nr))"
    by (rule runTask_writes)
qed

lemma cacheFirst_miss:
  assumes "cache_match c (req_url rq) = None"
  shows "cacheFirst P cfg E c n ts rq ttl staleTTL = fetchAndStore E c n [Open, Match (req_url rq)] ts rq"
  using assms by (simp add: cacheFirst_def)

lemma plain_read_handled:
  "handledRead plain defaults (plainRequest ''GET'' ''https://example.com/api/users'')"
  "getStrategy (req_headers (plainRequest ''GET'' ''https://example.com/api/users''))
     (defaultStrategy defaults) = ''cache-first''"
  "getTTL (req_headers (plainRequest ''GET'' ''https://example.com/api/users''))
     (defaultTTLSeconds defaults) = Some 300"
  "getStaleTTL (req_headers (plainRequest ''GET'' ''https://example.com/api/users''))
     (defaultStaleTTLSeconds defaults) = Some 3600"
  by code_simp+

lemma first_read_turn:
  "handleRequest plain defaults (serving 0 5000 (bare 200 ''new'')) (holding [] 0)
     (plainRequest ''GET'' ''https://example.com/api/users'') =
   \<lparr>result = Resolved (bare 200 ''new''),
    store = [(''https://example.com/api/users'', addTimestamp 5000 (bare 200 ''new''))],
    counter = 1,
    events = [Open, Match ''https://example.com/api/users'', Fetch ''https://example.com/api/users'',
              Put ''https://example.com/api/users'' (addTimestamp 5000 (bare 200 ''new''))],
    spawned = [Sweep]\<rparr>"
proof -
  have ok: "ok (bare 200 ''new'')" by code_simp
  have "handleRequest plain defaults (serving 0 5000 (bare 200 ''new'')) (holding [] 0)
      (plainRequest ''GET'' ''https://example.com/api/users'') =
    cacheFirst plain defaults (serving 0 5000 (bare 200 ''new'')) (cache (holding [] 0))
      (fst (periodicCleanup (fetchCounter (holding [] 0)))) (sweepDue (holding [] 0))
      (plainRequest ''GET'' ''https://example.com/api/users'') 300 (Some 3600)"
    unfolding handled_dispatch [OF plain_read_handled(1,3)]
    by (simp only: plain_read_handled Let_def, simp)
  then show ?thesis
    using ok
    by (simp add: cacheFirst_miss cache_match_def holding_def
        plainRequest_def fetchAndStore_def storeIfOk_def serving_def cache_put_def
        sweepDue_def periodicCleanup_def)
qed

theorem only_ok_responses_written_witness:
  "Put ''https://example.com/api/users'' (addTimestamp 5000 (bare 200 ''new''))
     \<in> set (events (handleRequest plain defaults (serving 0 5000 (bare 200 ''new'')) (holding [] 0)
           (plainRequest ''GET'' ''https://example.com/api/users''))) \<and>
   ok (addTimestamp 5000 (bare 200 ''new'')) \<and>
   getCacheTimestamp (addTimestamp 5000 (bare 200 ''new'')) = Some 5000 \<and>
   Sweep \<in> set (spawned (handleRequest plain defaults (serving 0 5000 (bare 200 ''new''))
           (holding [] 0) (plainRequest ''GET'' ''https://example.com/api/users''))) \<and>
   cache_match (runTask plain defaults 8000000 Sweep [(''https://example.com/api/users'', stamped ''1000'')])
     ''https://example.com/api/users'' = None"
proof -
  let ?u = "''https://example.com/api/users''"
  let ?T = "handleRequest plain defaults (serving 0 5000 (bare 200 ''new'')) (holding [] 0)
           (plainRequest ''GET'' ?u)"
  have p: "Put ?u (addTimestamp 5000 (bare 200 ''new'')) \<in> set (events ?T)"
    and s: "Sweep \<in> set (spawned ?T)"
    by (simp_all add: first_read_turn)
  have l: "later (serving 0 5000 (bare 200 ''new'')) = 5000"
    by (simp add: serving_def)
  have a: "ok (addTimestamp 5000 (bare 200 ''new'')) \<and>
      getCacheTimestamp (addTimestamp 5000 (bare 200 ''new'')) = Some 5000"
    using only_ok_responses_written [of ?u "addTimestamp 5000 (bare 200 ''new'')" plain defaults
        "serving 0 5000 (bare 200 ''new'')" "holding [] 0" "plainRequest ''GET'' ?u"] p l
    by simp
  have x: "cache_match [(?u, stamped ''1000'')] ?u = Some (stamped ''1000'')"
    "isOlderThanMaxAge 8000000 (stamped ''1000'') (maxCacheAgeSeconds defaults)"
    "net (serving 0 5000 (bare 200 ''new'')) (plainRequest ''GET'' ?u) = Inr (bare 200 ''new'')"
    by (simp add: cache_match_def, code_simp, simp add: serving_def)
  have b: "cache_match (runTask plain defaults 8000000 Sweep [(?u, stamped ''1000'')]) ?u = None"
    using x by (simp add: runTask_def cleanup_removes_expired)
  note only_ok_responses_written [of ?u _ plain defaults
        "serving 0 5000 (bare 200 ''new'')" "holding [] 0" "plainRequest ''GET'' ?u" Sweep
        8000000 "[(?u, stamped ''1000'')]"]
  then show ?thesis
    using p s a b by blast
qed

subsection \<open>Cache-first\<close>

text \<open>
  What the cache-first branch does for a request that reaches it: a fresh entry is returned
  without any network call; otherwise the network is called, a 2xx response is stored with
  the timestamp of that moment and returned, another response is returned and not stored;
  when the call throws, an entry that \<open>isStale\<close> accepts is returned and otherwise the
  error is the outcome. A retention-expired entry is deleted before the network call, but
  the fallback test does not look at that.
\<close>

lemma cache_first_turn:
  assumes "handledRead P cfg rq"
    and "getStrategy (req_headers rq) (defaultStrategy cfg) = ''cache-first''"
    and "getTTL (req_headers rq) (defaultTTLSeconds cfg) = Some ttl"
    and "getStaleTTL (req_headers rq) (defaultStaleTTLSeconds cfg) = staleTTL"
    and "T = handleRequest P cfg E st rq"
    and "k = req_url rq"
  shows
   "(cache_match (cache st) k = Some r \<and> isFresh (now E) r ttl \<longrightarrow>
       result T = Resolved r \<and> store T = cache st \<and> events T = [Open, Match k]) \<and>
    (cache_match (cache st) k = None \<or>
     (cache_match (cache st) k = Some r \<and> \<not> isFresh (now E) r ttl) \<longrightarrow>
       Fetch k \<in> set (events T) \<and>
       (net E rq = Inr nr \<and> ok nr \<longrightarrow>
          result T = Resolved nr \<and>
          cache_match (store T) k = Some (addTimestamp (later E) nr) \<and>
          getCacheTimestamp (addTimestamp (later E) nr) = Some (later E)) \<and>
       (net E rq = Inr nr \<and> \<not> ok nr \<longrightarrow>
          result T = Resolved nr \<and> (\<forall>r'. Put k r' \<notin> set (events T))) \<and>
       (net E rq = Inl e \<and> cache_match (cache st) k = Some r \<and>
        isStale (later E) r ttl staleTTL \<longrightarrow> result T = Resolved r) \<and>
       (net E rq = Inl e \<and>
        (cache_match (cache st) k = None \<or>
         (cache_match (cache st) k = Some r \<and> \<not> isStale (later E) r ttl staleTTL)) \<longrightarrow>
          result T = Rejected e) \<and>
       (cache_match (cache st) k = Some r \<and>
        isOlderThanMaxAge (now E) r (maxCacheAgeSeconds cfg) \<longrightarrow> Delete k \<in> set (events T)))"
proof -
  have T: "T = cacheFirst P cfg E (cache st) (fst (periodicCleanup (fetchCounter st)))
      (sweepDue st) rq ttl staleTTL"
    using handled_dispatch [OF assms(1,3)] assms(2,4,5) by (simp add: Let_def)
  show ?thesis
    unfolding T assms(6)
    by (auto simp: cacheFirst_def fetchAndStore_def storeIfOk_def Let_def
        cache_delete_present cache_match_delete cache_match_put getCacheTimestamp_addTimestamp
        split: sum.splits option.splits)
qed

text \<open>
  The round trip: a first read that misses and gets a 2xx response returns it and stores
  it; a second read within the TTL returns the stored response, whose body is the one
  received, and performs no network call.
\<close>

lemma cache_first_round_trip:
  assumes "handledRead P cfg rq"
    and "getStrategy (req_headers rq) (defaultStrategy cfg) = ''cache-first''"
    and "getTTL (req_headers rq) (defaultTTLSeconds cfg) = Some ttl"
    and "cache_match (cache st) (req_url rq) = None"
    and "net E rq = Inr nr" and "ok nr"
    and "now E' - later E < ttl * 1000"
  shows "result (handleRequest P cfg E st rq) = Resolved nr"
    and "result (handleRequest P cfg E' (after (handleRequest P cfg E st rq)) rq)
           = Resolved (addTimestamp (later E) nr)"
    and "body (addTimestamp (later E) nr) = body nr"
    and "events (handleRequest P cfg E' (after (handleRequest P cfg E st rq)) rq)
           = [Open, Match (req_url rq)]"
proof -
  let ?T = "handleRequest P cfg E st rq"
  have first: "result ?T = Resolved nr"
    "cache_match (store ?T) (req_url rq) = Some (addTimestamp (later E) nr)"
    using cache_first_turn [OF assms(1,2,3) refl refl refl, of st _ E nr] assms(4,5,6)
    by simp_all
  show "result ?T = Resolved nr" by (rule first)
  have fresh: "isFresh (now E') (addTimestamp (later E) nr) ttl"
    using assms(7) by (simp add: isFresh_addTimestamp)
  have second: "cache_match (cache (after ?T)) (req_url rq) = Some (addTimestamp (later E) nr)"
    using first(2) by (simp add: after_def)
  show "result (handleRequest P cfg E' (after ?T) rq) = Resolved (addTimestamp (later E) nr)"
    and "events (handleRequest P cfg E' (after ?T) rq) = [Open, Match (req_url rq)]"
    using cache_first_turn [OF assms(1,2,3) refl refl refl, of "after ?T"
        "addTimestamp (later E) nr" E'] second fresh
    by simp_all
  show "body (addTimestamp (later E) nr) = body nr"
    by (simp add: addTimestamp_payload)
qed

text \<open>
  Claim C1, evaluated. Default configuration, a stale-TTL directive of 9000 seconds, a
  cached entry of age 8000 seconds (older than the retention bound of 7200 seconds, and
  stale by the directive), and a network call that throws: the cache-first branch deletes
  the entry from the store and still returns it as the offline fallback, where the claim
  lets the network error propagate. The network-first branch, on the same input, deletes
  the entry and rejects with the network error.
\<close>

theorem cache_first_serves_expired_entry:
  "isOlderThanMaxAge 8000000 (stamped ''0'') (maxCacheAgeSeconds defaults) \<and>
   isStale 8000000 (stamped ''0'') 300 (Some 9000) \<and>
   result (handleRequest plain defaults (failing 8000000 8000000 ''offline'')
     (holding [(''https://example.com/api/users'', stamped ''0'')] 5)
     (strategyRequest ''https://example.com/api/users'' ''cache-first'' ''9000''))
     = Resolved (stamped ''0'') \<and>
   store (handleRequest plain defaults (failing 8000000 8000000 ''offline'')
     (holding [(''https://example.com/api/users'', stamped ''0'')] 5)
     (strategyRequest ''https://example.com/api/users'' ''cache-first'' ''9000'')) = [] \<and>
   result (handleRequest plain defaults (failing 8000000 8000000 ''offline'')
     (holding [(''https://example.com/api/users'', stamped ''0'')] 5)
     (strategyRequest ''https://example.com/api/users'' ''network-first'' ''9000''))
     = Rejected (Thrown ''offline'')"
proof -
  let ?u = "''https://example.com/api/users''"
  let ?c = "[(?u, stamped ''0'')]"
  let ?E = "failing 8000000 8000000 ''offline''"
  have h: "handledRead plain defaults (strategyRequest ?u ''cache-first'' ''9000'')"
    "getStrategy (req_headers (strategyRequest ?u ''cache-first'' ''9000''))
       (defaultStrategy defaults) = ''cache-first''"
    "getTTL (req_headers (strategyRequest ?u ''cache-first'' ''9000''))
       (defaultTTLSeconds defaults) = Some 300"
    "getStaleTTL (req_headers (strategyRequest ?u ''cache-first'' ''9000''))
       (defaultStaleTTLSeconds defaults) = Some 9000"
    by code_simp+
  have g: "handledRead plain defaults (strategyRequest ?u ''network-first'' ''9000'')"
    "getStrategy (req_headers (strategyRequest ?u ''network-first'' ''9000''))
       (defaultStrategy defaults) = ''network-first''"
    "getTTL (req_headers (strategyRequest ?u ''network-first'' ''9000''))
       (defaultTTLSeconds defaults) = Some 300"
    "getStaleTTL (req_headers (strategyRequest ?u ''network-first'' ''9000''))
       (defaultStaleTTLSeconds defaults) = Some 9000"
    by code_simp+
  have f: "isOlderThanMaxAge 8000000 (stamped ''0'') (maxCacheAgeSeconds defaults)"
    "isStale 8000000 (stamped ''0'') 300 (Some 9000)"
    "\<not> isFresh 8000000 (stamped ''0'') 300"
    by code_simp+
  have e: "net ?E y = Inl (Thrown ''offline'')" "now ?E = 8000000" "later ?E = 8000000"
    "cache (holding ?c 5) = ?c" "req_url (strategyRequest ?u s v) = ?u"
    "cache_match ?c ?u = Some (stamped ''0'')" for y s v
    by (simp_all add: failing_def holding_def strategyRequest_def cache_match_def)
  have cf: "handleRequest plain defaults ?E (holding ?c 5) (strategyRequest ?u ''cache-first'' ''9000'')
      = cacheFirst plain defaults ?E ?c (fst (periodicCleanup 5)) (sweepDue (holding ?c 5))
          (strategyRequest ?u ''cache-first'' ''9000'') 300 (Some 9000)"
    unfolding handled_dispatch [OF h(1,3)]
    by (simp only: h Let_def, simp add: holding_def)
  have nf: "handleRequest plain defaults ?E (holding ?c 5) (strategyRequest ?u ''network-first'' ''9000'')
      = networkFirst plain defaults ?E ?c (fst (periodicCleanup 5)) (sweepDue (holding ?c 5))
          (strategyRequest ?u ''network-first'' ''9000'') 300 (Some 9000)"
    unfolding handled_dispatch [OF g(1,3)]
    by (simp only: g Let_def, simp add: holding_def)
  have a: "result (handleRequest plain defaults ?E (holding ?c 5)
        (strategyRequest ?u ''cache-first'' ''9000'')) = Resolved (stamped ''0'')"
    "store (handleRequest plain defaults ?E (holding ?c 5)
        (strategyRequest ?u ''cache-first'' ''9000'')) = []"
    unfolding cf using f by (simp_all add: cacheFirst_def Let_def e cache_delete_present)
  have b: "result (handleRequest plain defaults ?E (holding ?c 5)
        (strategyRequest ?u ''network-first'' ''9000'')) = Rejected (Thrown ''offline'')"
    unfolding nf using f by (simp add: networkFirst_def Let_def e cache_delete_present)
  show ?thesis
    using f a b by blast
qed

text \<open>At this input the outcome is therefore not the network error.\<close>

theorem cache_first_serves_expired_entry_witness:
  "result (handleRequest plain defaults (failing 8000000 8000000 ''offline'')
     (holding [(''https://example.com/api/users'', stamped ''0'')] 5)
     (strategyRequest ''https://example.com/api/users'' ''cache-first'' ''9000''))
     \<noteq> Rejected (Thrown ''offline'')"
  using cache_first_serves_expired_entry by simp

end
